theory Spec2Isabelle
  imports Main "HOL-Library.Word" "HOL-Library.Multiset"
begin

unbundle bit_operations_syntax

section \<open>The registry router: data model\<close>

text \<open>
  The development embeds the registry-backed router (\<^verbatim>\<open>package registry\<close>, type
  \<^verbatim>\<open>rtr\<close>). The packages \<^verbatim>\<open>router\<close> and \<^verbatim>\<open>registry\<close> it imports are not part of
  the sources at hand; their types are rendered from the way the router uses them, and
  their constants and functions are either parameters of the definitions below or marked
  as modelled from the specification.
\<close>

text \<open>
  A Go \<^verbatim>\<open>map[string]string\<close> is a partial function; the \<^verbatim>\<open>nil\<close> map is \<open>None\<close>.
  Indexing a map yields the empty string for a missing key and for the \<^verbatim>\<open>nil\<close> map.
\<close>

type_synonym metadata = "(string \<rightharpoonup> string) option"

definition index_map :: "metadata \<Rightarrow> string \<Rightarrow> string" where
  "index_map md k = (case md of None \<Rightarrow> [] | Some m \<Rightarrow> (case m k of None \<Rightarrow> [] | Some v \<Rightarrow> v))"

text \<open>\<^verbatim>\<open>registry.Node\<close> and \<^verbatim>\<open>registry.Service\<close>, with the fields the router reads.\<close>

record node =
  node_Id :: string
  node_Address :: string
  node_Metadata :: metadata

record service =
  srv_Name :: string
  srv_Version :: string
  srv_Metadata :: metadata
  srv_Nodes :: "node list"

text \<open>\<^verbatim>\<open>router.Route\<close>: \<^verbatim>\<open>Metric\<close> is an \<^verbatim>\<open>int64\<close>.\<close>

record route =
  Service :: string
  Address :: string
  Gateway :: string
  Network :: string
  Router :: string
  Link :: string
  Metric :: "64 word"
  Metadata :: metadata

text \<open>
  Modelled from the spec: the constants \<^verbatim>\<open>registry.DefaultDomain\<close>, \<^verbatim>\<open>router.DefaultLink\<close>
  and \<^verbatim>\<open>router.DefaultLocalMetric\<close> are declared outside the sources at hand. The
  specification names the literal \<^verbatim>\<open>"default"\<close> as the last step of domain resolution, and
  its preload scenario shows a projected route with link \<^verbatim>\<open>local\<close> and metric \<^verbatim>\<open>1\<close>.
\<close>

definition DefaultDomain :: string where
  "DefaultDomain = ''default''"

definition DefaultLink :: string where
  "DefaultLink = ''local''"

definition DefaultLocalMetric :: "64 word" where
  "DefaultLocalMetric = 1"

section \<open>Domain resolution\<close>

text \<open>
  \<^verbatim>\<open>getDomain\<close>: the service's own metadata first, then the metadata of the first node,
  then the default domain. The argument is a non-\<^verbatim>\<open>nil\<close> service whose node list holds
  non-\<^verbatim>\<open>nil\<close> nodes, as the registry delivers them.
\<close>

definition getDomain :: "service \<Rightarrow> string" where
  "getDomain srv =
     (if srv_Metadata srv \<noteq> None \<and> length (index_map (srv_Metadata srv) ''domain'') > 0
      then index_map (srv_Metadata srv) ''domain''
      else if length (srv_Nodes srv) > 0 \<and> node_Metadata (hd (srv_Nodes srv)) \<noteq> None
      then index_map (node_Metadata (hd (srv_Nodes srv))) ''domain''
      else DefaultDomain)"

section \<open>Events, table interface and errors\<close>

text \<open>
  Modelled from the spec: \<^verbatim>\<open>router.EventType\<close> and its \<^verbatim>\<open>String\<close> method are declared
  outside the sources at hand. The specification gives the event types \<^verbatim>\<open>Create\<close>,
  \<^verbatim>\<open>Update\<close> and \<^verbatim>\<open>Delete\<close>, applied through the create/update/delete path of
  \<^verbatim>\<open>manageRoute\<close>, whose action strings are \<^verbatim>\<open>"create"\<close>, \<^verbatim>\<open>"update"\<close> and \<^verbatim>\<open>"delete"\<close>.
\<close>

datatype event_type = Create | Delete | Update

fun EventType_String :: "event_type \<Rightarrow> string" where
  "EventType_String Create = ''create''"
| "EventType_String Delete = ''delete''"
| "EventType_String Update = ''update''"

text \<open>\<^verbatim>\<open>router.Event\<close>; a \<^verbatim>\<open>time.Time\<close> is an instant on the integer time line.\<close>

record event =
  Type :: event_type
  Timestamp :: int
  Route :: route

text \<open>
  The errors a table operation can return: the two sentinels the router compares
  against, and \<open>ErrTable\<close> for any other error value.
\<close>

datatype table_error = ErrDuplicateRoute | ErrRouteNotFound | ErrTable string

text \<open>Errors of the registry watcher's \<^verbatim>\<open>Next\<close>.\<close>

datatype registry_error = ErrWatcherStopped | ErrRegistry string

text \<open>
  The errors the router returns. Those it builds with \<^verbatim>\<open>fmt.Errorf\<close> are kept
  structured: each constructor is one format string, its arguments are the values
  formatted into it. \<open>WatcherFailed\<close> is an error of the registry watcher, which
  \<^verbatim>\<open>watchRegistry\<close> returns as it is.
\<close>

datatype error =
    FailedAdding string table_error
  | FailedDeleting string table_error
  | FailedUpdating string table_error
  | UnknownAction string string
  | FailedApplying event_type error
  | WatcherFailed registry_error

text \<open>
  The routing table (\<^verbatim>\<open>r.table\<close>) is implemented outside the sources at hand. The router
  is embedded over any table: a state type \<open>'tbl\<close> and the four operations the router
  calls, each returning its error (if any) and the table after the call.
\<close>

record 'tbl table_ops =
  table_Create :: "route \<Rightarrow> 'tbl \<Rightarrow> table_error option \<times> 'tbl"
  table_Delete :: "route \<Rightarrow> 'tbl \<Rightarrow> table_error option \<times> 'tbl"
  table_Update :: "route \<Rightarrow> 'tbl \<Rightarrow> table_error option \<times> 'tbl"
  table_deleteService :: "string \<Rightarrow> string \<Rightarrow> 'tbl \<Rightarrow> 'tbl"

text \<open>\<^verbatim>\<open>router.Options\<close>, without the registry client.\<close>

datatype strategy = AdvertiseAll | AdvertiseBest | AdvertiseLocal | AdvertiseNone

record options =
  opt_Id :: string
  opt_Gateway :: string
  opt_Advertise :: strategy
  opt_Precache :: bool

section \<open>Applying actions to the table\<close>

text \<open>\<^verbatim>\<open>manageRoute\<close>: the \<^verbatim>\<open>switch\<close> on the action string, case by case.\<close>

definition manageRoute :: "'tbl table_ops \<Rightarrow> route \<Rightarrow> string \<Rightarrow> 'tbl \<Rightarrow> error option \<times> 'tbl" where
  "manageRoute T route action t =
     (if action = ''create'' then
        (case table_Create T route t of
           (Some err, t') \<Rightarrow>
             if err \<noteq> ErrDuplicateRoute then (Some (FailedAdding (Service route) err), t')
             else (None, t')
         | (None, t') \<Rightarrow> (None, t'))
      else if action = ''delete'' then
        (case table_Delete T route t of
           (Some err, t') \<Rightarrow>
             if err \<noteq> ErrRouteNotFound then (Some (FailedDeleting (Service route) err), t')
             else (None, t')
         | (None, t') \<Rightarrow> (None, t'))
      else if action = ''update'' then
        (case table_Update T route t of
           (Some err, t') \<Rightarrow> (Some (FailedUpdating (Service route) err), t')
         | (None, t') \<Rightarrow> (None, t'))
      else (Some (UnknownAction (Service route) action), t))"

text \<open>\<^verbatim>\<open>createRoutes\<close>: one route per node of the service.\<close>

definition createRoutes :: "options \<Rightarrow> service \<Rightarrow> string \<Rightarrow> route list" where
  "createRoutes opts service network =
     map (\<lambda>node. \<lparr>Service = srv_Name service, Address = node_Address node, Gateway = [],
                  Network = network, Router = opt_Id opts, Link = DefaultLink,
                  Metric = DefaultLocalMetric, Metadata = node_Metadata node\<rparr>)
         (srv_Nodes service)"

text \<open>
  \<^verbatim>\<open>strings.ToLower\<close> on the bytes of the string: the letters \<^verbatim>\<open>A\<close> to \<^verbatim>\<open>Z\<close> are
  mapped to \<^verbatim>\<open>a\<close> to \<^verbatim>\<open>z\<close>. This is Go's result on every ASCII string. No rune outside
  ASCII has a lower case among the letters of \<^verbatim>\<open>create\<close>, \<^verbatim>\<open>delete\<close> and \<^verbatim>\<open>update\<close>,
  so the comparisons of the lowered action with these three strings come out as in Go
  on every string.
\<close>

definition lower_byte :: "char \<Rightarrow> char" where
  "lower_byte c =
     (if (65::nat) \<le> of_char c \<and> of_char c \<le> (90::nat) then char_of (of_char c + (32::nat)) else c)"

definition ToLower :: "string \<Rightarrow> string" where
  "ToLower s = map lower_byte s"

text \<open>The loop of \<^verbatim>\<open>manageRoutes\<close> over the projected routes: the first error returns.\<close>

fun manageRoutes_loop :: "'tbl table_ops \<Rightarrow> route list \<Rightarrow> string \<Rightarrow> 'tbl \<Rightarrow> error option \<times> 'tbl" where
  "manageRoutes_loop T [] action t = (None, t)"
| "manageRoutes_loop T (route # routes) action t =
     (case manageRoute T route action t of
        (Some err, t') \<Rightarrow> (Some err, t')
      | (None, t') \<Rightarrow> manageRoutes_loop T routes action t')"

definition manageRoutes :: "'tbl table_ops \<Rightarrow> options \<Rightarrow> service \<Rightarrow> string \<Rightarrow> string \<Rightarrow> 'tbl \<Rightarrow> error option \<times> 'tbl" where
  "manageRoutes T opts service action0 network t =
     (let action = ToLower action0;
          routes = createRoutes opts service network
      in if action = ''delete'' \<and> length routes = 0
         then (None, table_deleteService T (srv_Name service) network t)
         else manageRoutes_loop T routes action t)"

section \<open>Watching the registry\<close>

text \<open>
  \<^verbatim>\<open>registry.Result\<close>: the service pointer may be \<^verbatim>\<open>nil\<close>. What one call of the watcher's
  \<^verbatim>\<open>Next\<close> returns is a result or an error.
\<close>

record result =
  res_Action :: string
  res_Service :: "service option"

datatype next_return = NextResult result | NextError registry_error

text \<open>
  \<^verbatim>\<open>watchRegistry\<close> runs until \<^verbatim>\<open>Next\<close> returns an error or an action fails. The watcher
  is given by what its successive calls of \<^verbatim>\<open>Next\<close> return; when that list is used up,
  the next call does not return and the loop is \<open>Waiting\<close>. The goroutine that stops
  the watcher on exit and the deferred close of the local channel touch neither the
  table nor the return value and are left out.
\<close>

datatype watch_outcome = Returned "error option" | Waiting

fun watchRegistry :: "'tbl table_ops \<Rightarrow> options \<Rightarrow> next_return list \<Rightarrow> 'tbl \<Rightarrow> watch_outcome \<times> 'tbl" where
  "watchRegistry T opts [] t = (Waiting, t)"
| "watchRegistry T opts (NextError err # w) t =
     (if err \<noteq> ErrWatcherStopped then (Returned (Some (WatcherFailed err)), t)
      else (Returned None, t))"
| "watchRegistry T opts (NextResult res # w) t =
     (case res_Service res of
        None \<Rightarrow> watchRegistry T opts w t
      | Some srv \<Rightarrow>
          (let domain = getDomain srv
           in case manageRoutes T opts srv (res_Action res) domain t of
                (Some err, t') \<Rightarrow> (Returned (Some err), t')
              | (None, t') \<Rightarrow> watchRegistry T opts w t'))"

section \<open>Applying an inbound advert\<close>

text \<open>
  How a call ends: it returns a value, it panics, or it never returns.
\<close>

datatype 'a outcome = Returns 'a | Panics | Diverges

text \<open>
  \<^verbatim>\<open>Process\<close> works on a slice of event pointers, copies it and sorts the copy in place;
  so the memory is explicit: \<open>event_at\<close> holds the \<^verbatim>\<open>router.Event\<close> structs by address,
  \<open>slice_at\<close> the backing arrays of the \<^verbatim>\<open>[]*router.Event\<close> slices by address, and
  every address from \<open>brk\<close> on is free. An address with no event is a \<^verbatim>\<open>nil\<close> (or
  dangling) pointer; an address with no array is the \<^verbatim>\<open>nil\<close> slice, of length 0.
\<close>

type_synonym ptr = nat

record memory =
  event_at :: "ptr \<rightharpoonup> event"
  slice_at :: "ptr \<rightharpoonup> ptr list"
  brk :: ptr

definition slice_elems :: "memory \<Rightarrow> ptr \<Rightarrow> ptr list" where
  "slice_elems m s = (case slice_at m s of None \<Rightarrow> [] | Some ps \<Rightarrow> ps)"

text \<open>\<^verbatim>\<open>router.Advert\<close>; the field \<open>Events\<close> is the slice, given by the address of its array.\<close>

datatype advert_type = Announce | RouteUpdate

record advert =
  adv_Id :: string
  adv_Type :: advert_type
  adv_TTL :: int
  adv_Timestamp :: int
  Events :: ptr

text \<open>
  The loop of \<^verbatim>\<open>Process\<close> over the sorted events: an event that this router originated is
  skipped, any other is applied with \<^verbatim>\<open>manageRoute\<close>, and the first error returns, wrapped.
\<close>

fun Process_events :: "'tbl table_ops \<Rightarrow> string \<Rightarrow> event list \<Rightarrow> 'tbl \<Rightarrow> error option \<times> 'tbl" where
  "Process_events T rid [] t = (None, t)"
| "Process_events T rid (event # events) t =
     (if Router (Route event) = rid then Process_events T rid events t
      else
        (let route = Route event; action = Type event
         in case manageRoute T route (EventType_String action) t of
              (Some err, t') \<Rightarrow> (Some (FailedApplying action err), t')
            | (None, t') \<Rightarrow> Process_events T rid events t'))"

text \<open>
  \<^verbatim>\<open>sort.Slice\<close> belongs to Go's library: it permutes the slice in place so that no
  element is less than an earlier one, and promises nothing about the order of equal
  elements. It is a parameter \<open>sort_Slice\<close> of \<^verbatim>\<open>Process\<close>, applied to the key the \<^verbatim>\<open>less\<close>
  function compares (the event's timestamp, through the pointer); the theorems assume
  \<open>sort_Slice_contract\<close> of it and nothing else.
\<close>

definition sort_Slice_contract :: "((ptr \<Rightarrow> int) \<Rightarrow> ptr list \<Rightarrow> ptr list) \<Rightarrow> bool" where
  "sort_Slice_contract srt = (\<forall>key xs. mset (srt key xs) = mset xs \<and> sorted (map key (srt key xs)))"

text \<open>
  \<^verbatim>\<open>Process\<close>: \<^verbatim>\<open>make\<close> and \<^verbatim>\<open>copy\<close> put the pointers of \<^verbatim>\<open>a.Events\<close> into a new array at
  the first free address, \<^verbatim>\<open>sort.Slice\<close> reorders that array, the loop runs over it. The
  call panics when it reads the timestamp or the route through a pointer with no event,
  which for any such pointer in the slice happens before the first action is applied.
\<close>

definition Process :: "((ptr \<Rightarrow> int) \<Rightarrow> ptr list \<Rightarrow> ptr list) \<Rightarrow> 'tbl table_ops \<Rightarrow> options \<Rightarrow> advert \<Rightarrow>
    memory \<Rightarrow> 'tbl \<Rightarrow> (error option \<times> memory \<times> 'tbl) outcome" where
  "Process sort_Slice T opts a m t =
     (let src = slice_elems m (Events a);
          events = brk m;
          m1 = m\<lparr>slice_at := (slice_at m)(events \<mapsto> src), brk := Suc (brk m)\<rparr>
      in if list_ex (\<lambda>p. event_at m1 p = None) src then Panics
         else
           (let m2 = m1\<lparr>slice_at := (slice_at m1)(events \<mapsto>
                          sort_Slice (\<lambda>p. Timestamp (the (event_at m1 p))) (slice_elems m1 events))\<rparr>
            in case Process_events T (opt_Id opts)
                      (map (\<lambda>p. the (event_at m2 p)) (slice_elems m2 events)) t of
                 (err, t') \<Rightarrow> Returns (err, m2, t')))"

section \<open>Observing the calls on the table\<close>

text \<open>
  To state which table operations a run invokes, and in which order, a table is wrapped
  so that every call is appended to a log before it is passed on unchanged.
\<close>

datatype call = CreateCall route | DeleteCall route | UpdateCall route | DeleteServiceCall string string

definition spy :: "'tbl table_ops \<Rightarrow> ('tbl \<times> call list) table_ops" where
  "spy T =
     \<lparr>table_Create = (\<lambda>r (t, log). case table_Create T r t of (err, t') \<Rightarrow> (err, (t', log @ [CreateCall r]))),
      table_Delete = (\<lambda>r (t, log). case table_Delete T r t of (err, t') \<Rightarrow> (err, (t', log @ [DeleteCall r]))),
      table_Update = (\<lambda>r (t, log). case table_Update T r t of (err, t') \<Rightarrow> (err, (t', log @ [UpdateCall r]))),
      table_deleteService = (\<lambda>s n (t, log). (table_deleteService T s n t, log @ [DeleteServiceCall s n]))\<rparr>"

fun call_of :: "event \<Rightarrow> call" where
  "call_of e = (case Type e of Create \<Rightarrow> CreateCall (Route e)
                             | Delete \<Rightarrow> DeleteCall (Route e)
                             | Update \<Rightarrow> UpdateCall (Route e))"

section \<open>The table of the specification\<close>

text \<open>
  Modelled from the spec: the table's \<^verbatim>\<open>Create\<close>, \<^verbatim>\<open>Update\<close>, \<^verbatim>\<open>Delete\<close> and
  \<^verbatim>\<open>deleteService\<close> are implemented outside the sources at hand. The specification has:
  \<^verbatim>\<open>Create\<close> inserts a route keyed by fingerprint, fails with \<^verbatim>\<open>ErrDuplicateRoute\<close> if
  present, and on success sets last-seen to now and emits \<^verbatim>\<open>Create\<close>; \<^verbatim>\<open>Update\<close>
  overwrites metric and metadata of a present route, refreshes last-seen and emits
  \<^verbatim>\<open>Update\<close>, and falls back to \<^verbatim>\<open>Create\<close> for an absent one; \<^verbatim>\<open>Delete\<close> removes by
  fingerprint, fails with \<^verbatim>\<open>ErrRouteNotFound\<close> if absent, and emits \<^verbatim>\<open>Delete\<close>;
  \<^verbatim>\<open>deleteService\<close> removes all routes with matching service and network (the wildcard
  \<^verbatim>\<open>"*"\<close> matches any) and emits \<^verbatim>\<open>Delete\<close> for each removed route. The fingerprint
  \<open>H\<close> (\<^verbatim>\<open>Route.Hash\<close>) and the time \<open>now\<close> of the calls are parameters. The wildcard
  is read as a network argument \<^verbatim>\<open>"*"\<close> matching the network of every route.
\<close>

record spec_table =
  st_routes :: "(route \<times> int) list"
  st_emitted :: "event list"

definition spec_present :: "(route \<Rightarrow> 64 word) \<Rightarrow> route \<Rightarrow> spec_table \<Rightarrow> bool" where
  "spec_present H r t = list_ex (\<lambda>(r', seen). H r' = H r) (st_routes t)"

definition spec_Create :: "(route \<Rightarrow> 64 word) \<Rightarrow> int \<Rightarrow> route \<Rightarrow> spec_table \<Rightarrow> table_error option \<times> spec_table" where
  "spec_Create H now r t =
     (if spec_present H r t then (Some ErrDuplicateRoute, t)
      else (None, t\<lparr>st_routes := st_routes t @ [(r, now)],
                    st_emitted := st_emitted t @ [\<lparr>Type = Create, Timestamp = now, Route = r\<rparr>]\<rparr>))"

definition spec_Update :: "(route \<Rightarrow> 64 word) \<Rightarrow> int \<Rightarrow> route \<Rightarrow> spec_table \<Rightarrow> table_error option \<times> spec_table" where
  "spec_Update H now r t =
     (if spec_present H r t
      then (None, t\<lparr>st_routes := map (\<lambda>(r', seen). if H r' = H r
                                       then (r'\<lparr>Metric := Metric r, Metadata := Metadata r\<rparr>, now)
                                       else (r', seen)) (st_routes t),
                    st_emitted := st_emitted t @ [\<lparr>Type = Update, Timestamp = now, Route = r\<rparr>]\<rparr>)
      else spec_Create H now r t)"

definition spec_Delete :: "(route \<Rightarrow> 64 word) \<Rightarrow> int \<Rightarrow> route \<Rightarrow> spec_table \<Rightarrow> table_error option \<times> spec_table" where
  "spec_Delete H now r t =
     (if spec_present H r t
      then (None, t\<lparr>st_routes := filter (\<lambda>(r', seen). H r' \<noteq> H r) (st_routes t),
                    st_emitted := st_emitted t @ [\<lparr>Type = Delete, Timestamp = now, Route = r\<rparr>]\<rparr>)
      else (Some ErrRouteNotFound, t))"

definition spec_matches :: "string \<Rightarrow> string \<Rightarrow> route \<Rightarrow> bool" where
  "spec_matches service network r = (Service r = service \<and> (network = ''*'' \<or> Network r = network))"

definition spec_deleteService :: "int \<Rightarrow> string \<Rightarrow> string \<Rightarrow> spec_table \<Rightarrow> spec_table" where
  "spec_deleteService now service network t =
     t\<lparr>st_routes := filter (\<lambda>(r, seen). \<not> spec_matches service network r) (st_routes t),
       st_emitted := st_emitted t @
          map (\<lambda>(r, seen). \<lparr>Type = Delete, Timestamp = now, Route = r\<rparr>)
              (filter (\<lambda>(r, seen). spec_matches service network r) (st_routes t))\<rparr>"

definition spec_ops :: "(route \<Rightarrow> 64 word) \<Rightarrow> int \<Rightarrow> spec_table table_ops" where
  "spec_ops H now =
     \<lparr>table_Create = spec_Create H now, table_Delete = spec_Delete H now,
      table_Update = spec_Update H now, table_deleteService = spec_deleteService now\<rparr>"

text \<open>
  \<^verbatim>\<open>Route.Hash\<close> is a parameter throughout. Where a theorem is run on a concrete input,
  it is instantiated with this fingerprint over the six identity fields.
\<close>

definition sample_Hash :: "route \<Rightarrow> 64 word" where
  "sample_Hash r =
     foldl (\<lambda>h c. h * 1099511628211 XOR of_char c) 14695981039346656037
       (Service r @ Address r @ Gateway r @ Network r @ Router r @ Link r)"

section \<open>The advert engine\<close>

text \<open>
  \<^verbatim>\<open>adverts\<close> is a Go map from the route's hash to the event pointer stored for it. The
  events are never written through these pointers, so the map holds the events.
\<close>

type_synonym adverts = "64 word \<rightharpoonup> event"

text \<open>
  The \<^verbatim>\<open>case e := <-r.eventChan\<close> branch of \<^verbatim>\<open>advertiseEvents\<close>, for a received pointer
  (\<open>None\<close> is \<^verbatim>\<open>nil\<close>). In its last step the source assigns \<^verbatim>\<open>ev = e\<close>: \<^verbatim>\<open>ev\<close> is the
  local variable that holds the looked-up pointer, and the branch ends there, so the map
  is as it was.
\<close>

definition on_event :: "(route \<Rightarrow> 64 word) \<Rightarrow> options \<Rightarrow> event option \<Rightarrow> adverts \<Rightarrow> adverts" where
  "on_event H opts e0 adverts =
     (case e0 of
        None \<Rightarrow> adverts
      | Some e \<Rightarrow>
          if opt_Advertise opts = AdvertiseNone then adverts
          else if opt_Advertise opts = AdvertiseLocal \<and> Link (Route e) \<noteq> ''local'' then adverts
          else
            (let hash = H (Route e)
             in case adverts hash of
                  None \<Rightarrow> adverts(hash \<mapsto> e)
                | Some ev \<Rightarrow>
                    (let ev = (if Type ev \<noteq> Type e then e else ev)
                     in adverts)))"

text \<open>
  The \<^verbatim>\<open>range\<close> loop of the \<^verbatim>\<open>ticker.C\<close> branch. Go visits the keys of a map in an order
  of its choosing, each key once; \<open>keys\<close> is that order. A visited event that passes the
  strategy is copied to the end of \<open>events\<close> and its key is deleted from the map.
\<close>

fun collect :: "options \<Rightarrow> 64 word list \<Rightarrow> adverts \<Rightarrow> event list \<Rightarrow> event list \<times> adverts" where
  "collect opts [] adverts events = (events, adverts)"
| "collect opts (key # keys) adverts events =
     (case adverts key of
        None \<Rightarrow> collect opts keys adverts events
      | Some event \<Rightarrow>
          if opt_Advertise opts = AdvertiseLocal \<and> Link (Route event) \<noteq> ''local''
          then collect opts keys adverts events
          else collect opts keys (adverts(key := None)) (events @ [event]))"

definition range_order :: "64 word list \<Rightarrow> adverts \<Rightarrow> bool" where
  "range_order keys adverts = (distinct keys \<and> set keys = dom adverts)"

text \<open>
  The \<^verbatim>\<open>ticker.C\<close> branch: the first component is the event list handed to
  \<^verbatim>\<open>publishAdvert(router.RouteUpdate, events)\<close>, or \<open>None\<close> when nothing is published.
\<close>

definition on_tick :: "options \<Rightarrow> 64 word list \<Rightarrow> adverts \<Rightarrow> event list option \<times> adverts" where
  "on_tick opts keys adverts =
     (if opt_Advertise opts = AdvertiseNone then (None, adverts)
      else
        (case collect opts keys adverts [] of
           (events, adverts') \<Rightarrow> (if length events > 0 then Some events else None, adverts')))"

text \<open>
  The \<^verbatim>\<open>select\<close> loop of \<^verbatim>\<open>advertiseEvents\<close>, run on the sequence of its wake-ups: a tick
  (with the order in which the map is ranged over), a value received from the event
  channel, or the exit signal. It yields the event lists published, oldest first, and the
  map at the end. The table watcher that the function opens first is left out: when it
  cannot be opened the function returns that error before the loop, and otherwise the
  watcher goroutine only feeds the event channel.
\<close>

datatype wakeup = Tick "64 word list" | TableEvent "event option" | Exit

fun advertiseEvents :: "(route \<Rightarrow> 64 word) \<Rightarrow> options \<Rightarrow> wakeup list \<Rightarrow> adverts \<Rightarrow> event list list \<times> adverts" where
  "advertiseEvents H opts [] adverts = ([], adverts)"
| "advertiseEvents H opts (Tick keys # ws) adverts =
     (case on_tick opts keys adverts of
        (published, adverts') \<Rightarrow>
          (case advertiseEvents H opts ws adverts' of
             (later, final) \<Rightarrow> ((case published of None \<Rightarrow> [] | Some events \<Rightarrow> [events]) @ later, final)))"
| "advertiseEvents H opts (TableEvent e # ws) adverts =
     advertiseEvents H opts ws (on_event H opts e adverts)"
| "advertiseEvents H opts (Exit # ws) adverts = ([], adverts)"

section \<open>Closing the router\<close>

text \<open>
  The channels the router holds are objects shared with its goroutines and subscribers:
  \<open>chans\<close> gives the state of the channel at each address, a channel-typed field is an
  address or \<^verbatim>\<open>nil\<close> (\<open>None\<close>). \<open>ch_pending\<close> counts the values a receive would get
  without blocking. The subscriber map is a list of entries with distinct ids, ranged
  over in list order.
\<close>

record chan_state =
  ch_closed :: bool
  ch_pending :: nat

record rtr =
  running :: bool
  exit_chan :: "ptr option"
  eventChan :: "ptr option"
  subscribers :: "(string \<times> ptr) list"
  chans :: "ptr \<Rightarrow> chan_state"

text \<open>
  \<^verbatim>\<open>drain\<close>: receive from the event channel until a receive would block. A \<^verbatim>\<open>nil\<close>
  channel always blocks; a closed one never does, so the loop would not end.
\<close>

definition drain :: "rtr \<Rightarrow> rtr outcome" where
  "drain r =
     (case eventChan r of
        None \<Rightarrow> Returns r
      | Some c \<Rightarrow>
          if ch_closed (chans r c) then Diverges
          else Returns (r\<lparr>chans := (chans r)(c := (chans r c)\<lparr>ch_pending := 0\<rparr>)\<rparr>))"

text \<open>The loop over the subscribers: closing a closed channel panics.\<close>

fun close_subscribers :: "(string \<times> ptr) list \<Rightarrow> (ptr \<Rightarrow> chan_state) \<Rightarrow> (ptr \<Rightarrow> chan_state) outcome" where
  "close_subscribers [] cs = Returns cs"
| "close_subscribers ((sid, sub) # subs) cs =
     (if ch_closed (cs sub) then Panics
      else close_subscribers subs (cs(sub := (cs sub)\<lparr>ch_closed := True\<rparr>)))"

text \<open>
  \<^verbatim>\<open>Close\<close>, under the router's lock. Nothing is ever sent on the exit channel, so the
  receive \<^verbatim>\<open><-r.exit\<close> of the \<^verbatim>\<open>select\<close> is ready exactly when that channel is closed.
  Closing a \<^verbatim>\<open>nil\<close> channel panics.
\<close>

definition exit_closed :: "rtr \<Rightarrow> bool" where
  "exit_closed r = (case exit_chan r of None \<Rightarrow> False | Some x \<Rightarrow> ch_closed (chans r x))"

definition Close :: "rtr \<Rightarrow> (error option \<times> rtr) outcome" where
  "Close r =
     (if exit_closed r then Returns (None, r)
      else if \<not> running r then Returns (None, r)
      else
        (case exit_chan r of
           None \<Rightarrow> Panics
         | Some x \<Rightarrow>
             (case drain (r\<lparr>chans := (chans r)(x := (chans r x)\<lparr>ch_closed := True\<rparr>)\<rparr>) of
                Panics \<Rightarrow> Panics
              | Diverges \<Rightarrow> Diverges
              | Returns r1 \<Rightarrow>
                  (case close_subscribers (subscribers r1) (chans r1) of
                     Panics \<Rightarrow> Panics
                   | Diverges \<Rightarrow> Diverges
                   | Returns cs \<Rightarrow>
                       (let r2 = r1\<lparr>chans := cs, subscribers := []\<rparr>
                        in case eventChan r2 of
                             None \<Rightarrow> Returns (None, r2\<lparr>running := False\<rparr>)
                           | Some c \<Rightarrow>
                               if ch_closed (chans r2 c) then Panics
                               else Returns (None,
                                      r2\<lparr>chans := (chans r2)(c := (chans r2 c)\<lparr>ch_closed := True\<rparr>),
                                         eventChan := None, running := False\<rparr>))))))"

text \<open>
  The states \<^verbatim>\<open>start\<close> and \<^verbatim>\<open>Advertise\<close> produce: a running router has an open exit
  channel; the event channel, when set, is open; the subscriber channels are open and
  pairwise different, and none of them is the exit or the event channel.
\<close>

definition rtr_ok :: "rtr \<Rightarrow> bool" where
  "rtr_ok r =
     ((running r \<longrightarrow> exit_chan r \<noteq> None \<and> \<not> exit_closed r) \<and>
      (case eventChan r of None \<Rightarrow> True | Some c \<Rightarrow> \<not> ch_closed (chans r c) \<and> exit_chan r \<noteq> Some c) \<and>
      distinct (map snd (subscribers r)) \<and>
      list_all (\<lambda>(sid, sub). \<not> ch_closed (chans r sub) \<and> exit_chan r \<noteq> Some sub \<and> eventChan r \<noteq> Some sub)
        (subscribers r))"

section \<open>Auxiliary notions for the statements\<close>

text \<open>The events an advert points to, in the order of its slice.\<close>

definition advert_events :: "memory \<Rightarrow> advert \<Rightarrow> event list" where
  "advert_events m a = map (\<lambda>p. the (event_at m p)) (slice_elems m (Events a))"

text \<open>The contents of the sorted copy that \<^verbatim>\<open>Process\<close> makes.\<close>

definition sorted_copy :: "((ptr \<Rightarrow> int) \<Rightarrow> ptr list \<Rightarrow> ptr list) \<Rightarrow> memory \<Rightarrow> advert \<Rightarrow> ptr list" where
  "sorted_copy srt m a = srt (\<lambda>p. Timestamp (the (event_at m p))) (slice_elems m (Events a))"

text \<open>The events that the loop of \<^verbatim>\<open>Process\<close> hands to \<^verbatim>\<open>manageRoute\<close>, in order.\<close>

fun applied :: "'tbl table_ops \<Rightarrow> string \<Rightarrow> event list \<Rightarrow> 'tbl \<Rightarrow> event list" where
  "applied T rid [] t = []"
| "applied T rid (e # es) t =
     (if Router (Route e) = rid then applied T rid es t
      else (case manageRoute T (Route e) (EventType_String (Type e)) t of
              (Some err, t') \<Rightarrow> [e]
            | (None, t') \<Rightarrow> e # applied T rid es t'))"

text \<open>Every entry of the aggregation map is stored under the hash of its own route.\<close>

definition keyed :: "(route \<Rightarrow> 64 word) \<Rightarrow> adverts \<Rightarrow> bool" where
  "keyed H adverts = (\<forall>k e. adverts k = Some e \<longrightarrow> H (Route e) = k)"

text \<open>
  The guards of the event branch, and of the range loop, of the advert engine: an event
  is admitted to the map unless the strategy is \<^verbatim>\<open>AdvertiseNone\<close>, or \<^verbatim>\<open>AdvertiseLocal\<close>
  with a link other than \<^verbatim>\<open>local\<close>; a stored event passes the range loop unless the
  strategy is \<^verbatim>\<open>AdvertiseLocal\<close> and its link is not \<^verbatim>\<open>local\<close>.
\<close>

definition admitted :: "options \<Rightarrow> event \<Rightarrow> bool" where
  "admitted opts e =
     (opt_Advertise opts \<noteq> AdvertiseNone \<and>
      \<not> (opt_Advertise opts = AdvertiseLocal \<and> Link (Route e) \<noteq> ''local''))"

definition passes :: "options \<Rightarrow> event \<Rightarrow> bool" where
  "passes opts e = (\<not> (opt_Advertise opts = AdvertiseLocal \<and> Link (Route e) \<noteq> ''local''))"

section \<open>Example inputs\<close>

text \<open>
  Inputs in the style of the specification's end-to-end scenarios, on which the theorems
  below are run: a router \<^verbatim>\<open>self\<close>, routes of the service \<^verbatim>\<open>cart\<close>, an advert whose
  events are out of timestamp order and include one of the router's own.
\<close>

definition ex_opts :: "strategy \<Rightarrow> options" where
  "ex_opts adv = \<lparr>opt_Id = ''self'', opt_Gateway = [], opt_Advertise = adv, opt_Precache = False\<rparr>"

definition ex_route :: "string \<Rightarrow> string \<Rightarrow> string \<Rightarrow> string \<Rightarrow> route" where
  "ex_route address network router link =
     \<lparr>Service = ''cart'', Address = address, Gateway = [], Network = network, Router = router,
      Link = link, Metric = 1, Metadata = None\<rparr>"

definition ex_memory :: memory where
  "ex_memory =
     \<lparr>event_at = [10 \<mapsto> \<lparr>Type = Delete, Timestamp = 30, Route = ex_route ''10.0.0.1:80'' ''prod'' ''peer-1'' ''network''\<rparr>,
                  11 \<mapsto> \<lparr>Type = Create, Timestamp = 10, Route = ex_route ''10.0.0.1:80'' ''prod'' ''peer-1'' ''network''\<rparr>,
                  12 \<mapsto> \<lparr>Type = Update, Timestamp = 20, Route = ex_route ''10.0.0.2:80'' ''prod'' ''self'' ''local''\<rparr>,
                  13 \<mapsto> \<lparr>Type = Create, Timestamp = 5, Route = ex_route ''10.0.0.3:80'' ''prod'' ''self'' ''local''\<rparr>],
      slice_at = [1 \<mapsto> [10, 11, 12], 2 \<mapsto> [12, 13]],
      brk = 20\<rparr>"

definition ex_advert :: "ptr \<Rightarrow> advert" where
  "ex_advert events =
     \<lparr>adv_Id = ''peer-1'', adv_Type = RouteUpdate, adv_TTL = 120, adv_Timestamp = 40, Events = events\<rparr>"

definition ex_table :: "route list \<Rightarrow> spec_table" where
  "ex_table rs = \<lparr>st_routes = map (\<lambda>r. (r, 0)) rs, st_emitted = []\<rparr>"

text \<open>A table whose operations all fail with an error that is neither sentinel.\<close>

definition ex_failing_table :: "unit table_ops" where
  "ex_failing_table =
     \<lparr>table_Create = (\<lambda>r t. (Some (ErrTable ''read-only''), t)),
      table_Delete = (\<lambda>r t. (Some (ErrTable ''read-only''), t)),
      table_Update = (\<lambda>r t. (Some (ErrTable ''read-only''), t)),
      table_deleteService = (\<lambda>s n t. t)\<rparr>"

definition ex_service :: "node list \<Rightarrow> service" where
  "ex_service nodes = \<lparr>srv_Name = ''cart'', srv_Version = ''1'',
                        srv_Metadata = Some [''domain'' \<mapsto> ''prod''], srv_Nodes = nodes\<rparr>"

definition ex_event :: "event_type \<Rightarrow> int \<Rightarrow> string \<Rightarrow> event" where
  "ex_event ty ts link = \<lparr>Type = ty, Timestamp = ts, Route = ex_route ''10.0.0.1:80'' ''prod'' ''self'' link\<rparr>"

text \<open>
  A running router with an open exit channel (1), an event channel (2) on which two
  senders wait, and two subscribers (channels 3 and 4); and the same router after
  \<^verbatim>\<open>Close\<close>.
\<close>

definition ex_rtr :: rtr where
  "ex_rtr =
     \<lparr>running = True, exit_chan = Some 1, eventChan = Some 2,
      subscribers = [(''sub-a'', 3), (''sub-b'', 4)],
      chans = (\<lambda>c. \<lparr>ch_closed = False, ch_pending = 0\<rparr>)(2 := \<lparr>ch_closed = False, ch_pending = 2\<rparr>)\<rparr>"

section \<open>Theorems\<close>

subsection \<open>Domain resolution\<close>

text \<open>
  C7. The resolved domain follows the precedence: a non-empty \<^verbatim>\<open>"domain"\<close> entry of the
  service's metadata is used; otherwise, when the service has a first node whose metadata
  is present, that node's \<^verbatim>\<open>"domain"\<close> entry is used (the empty string when the key is
  missing, as Go's map index gives); otherwise the literal \<^verbatim>\<open>"default"\<close> is used.
\<close>

theorem getDomain_precedence:
  "(srv_Metadata srv = Some m \<and> m ''domain'' = Some d \<and> d \<noteq> [] \<longrightarrow> getDomain srv = d) \<and>
   ((srv_Metadata srv = None \<or>
     (\<exists>m'. srv_Metadata srv = Some m' \<and> (m' ''domain'' = None \<or> m' ''domain'' = Some []))) \<longrightarrow>
      (srv_Nodes srv = n # ns \<and> node_Metadata n = Some nm \<longrightarrow>
         getDomain srv = (case nm ''domain'' of None \<Rightarrow> [] | Some v \<Rightarrow> v)) \<and>
      (srv_Nodes srv = [] \<or> (\<exists>n' ns'. srv_Nodes srv = n' # ns' \<and> node_Metadata n' = None) \<longrightarrow>
         getDomain srv = ''default''))"
  by (auto simp: getDomain_def index_map_def DefaultDomain_def split: option.splits)

theorem getDomain_precedence_witness:
  "getDomain \<lparr>srv_Name = ''cart'', srv_Version = ''1'',
       srv_Metadata = Some [''domain'' \<mapsto> ''prod''],
       srv_Nodes = [\<lparr>node_Id = ''n1'', node_Address = ''10.0.0.1:80'',
                     node_Metadata = Some [''domain'' \<mapsto> ''staging'']\<rparr>]\<rparr> = ''prod'' \<and>
   getDomain \<lparr>srv_Name = ''cart'', srv_Version = ''1'',
       srv_Metadata = Some [''domain'' \<mapsto> []],
       srv_Nodes = [\<lparr>node_Id = ''n1'', node_Address = ''10.0.0.1:80'',
                     node_Metadata = Some [''domain'' \<mapsto> ''staging'']\<rparr>]\<rparr> = ''staging'' \<and>
   getDomain \<lparr>srv_Name = ''cart'', srv_Version = ''1'',
       srv_Metadata = None, srv_Nodes = []\<rparr> = ''default''"
  using
    getDomain_precedence [of "\<lparr>srv_Name = ''cart'', srv_Version = ''1'',
       srv_Metadata = Some [''domain'' \<mapsto> ''prod''],
       srv_Nodes = [\<lparr>node_Id = ''n1'', node_Address = ''10.0.0.1:80'',
                     node_Metadata = Some [''domain'' \<mapsto> ''staging'']\<rparr>]\<rparr>"
      "[''domain'' \<mapsto> ''prod'']" "''prod''"]
    getDomain_precedence [of "\<lparr>srv_Name = ''cart'', srv_Version = ''1'',
       srv_Metadata = Some [''domain'' \<mapsto> []],
       srv_Nodes = [\<lparr>node_Id = ''n1'', node_Address = ''10.0.0.1:80'',
                     node_Metadata = Some [''domain'' \<mapsto> ''staging'']\<rparr>]\<rparr>"
      _ _ "\<lparr>node_Id = ''n1'', node_Address = ''10.0.0.1:80'',
                     node_Metadata = Some [''domain'' \<mapsto> ''staging'']\<rparr>" "[]"
      "[''domain'' \<mapsto> ''staging'']"]
    getDomain_precedence [of "\<lparr>srv_Name = ''cart'', srv_Version = ''1'',
       srv_Metadata = None, srv_Nodes = []\<rparr>"]
  by simp

subsection \<open>The calls a run makes on the table\<close>

lemma manageRoute_spy:
  "manageRoute (spy T) (Route e) (EventType_String (Type e)) (t, log) =
     (case manageRoute T (Route e) (EventType_String (Type e)) t of
        (err, t') \<Rightarrow> (err, (t', log @ [call_of e])))"
proof (cases "Type e")
  case Create
  then show ?thesis
    by (cases "table_Create T (Route e) t") (simp add: manageRoute_def spy_def split: option.splits)
next
  case Delete
  then show ?thesis
    by (cases "table_Delete T (Route e) t") (simp add: manageRoute_def spy_def split: option.splits)
next
  case Update
  then show ?thesis
    by (cases "table_Update T (Route e) t") (simp add: manageRoute_def spy_def split: option.splits)
qed

lemma Process_events_spy:
  "Process_events (spy T) rid es (t, log) =
     (case Process_events T rid es t of
        (err, t') \<Rightarrow> (err, (t', log @ map call_of (applied T rid es t))))"
proof (induction es arbitrary: t log)
  case Nil
  show ?case by simp
next
  case (Cons e es)
  show ?case
  proof (cases "Router (Route e) = rid")
    case True
    then show ?thesis using Cons.IH [of t log] by simp
  next
    case False
    obtain err t1 where mr: "manageRoute T (Route e) (EventType_String (Type e)) t = (err, t1)"
      by (cases "manageRoute T (Route e) (EventType_String (Type e)) t")
    show ?thesis
    proof (cases err)
      case None
      show ?thesis
        using False mr None Cons.IH [of t1 "log @ [call_of e]"]
        by (simp add: manageRoute_spy Let_def split: prod.splits)
    next
      case (Some x)
      show ?thesis
        using False mr Some
        by (simp add: manageRoute_spy Let_def)
    qed
  qed
qed

lemma applied_prefix:
  "\<exists>k. applied T rid es t = take k (filter (\<lambda>e. Router (Route e) \<noteq> rid) es)"
proof (induction es arbitrary: t)
  case Nil
  show ?case by simp
next
  case (Cons e es)
  show ?case
  proof (cases "Router (Route e) = rid")
    case True
    then show ?thesis using Cons.IH [of t] by simp
  next
    case False
    obtain err t1 where mr: "manageRoute T (Route e) (EventType_String (Type e)) t = (err, t1)"
      by (cases "manageRoute T (Route e) (EventType_String (Type e)) t")
    show ?thesis
    proof (cases err)
      case None
      from Cons.IH [of t1] obtain k where
        "applied T rid es t1 = take k (filter (\<lambda>e. Router (Route e) \<noteq> rid) es)" ..
      then have "applied T rid (e # es) t = take (Suc k) (filter (\<lambda>e. Router (Route e) \<noteq> rid) (e # es))"
        using False mr None by simp
      then show ?thesis ..
    next
      case (Some x)
      have "applied T rid (e # es) t = take (Suc 0) (filter (\<lambda>e. Router (Route e) \<noteq> rid) (e # es))"
        using False mr Some by simp
      then show ?thesis ..
    qed
  qed
qed

lemma applied_all:
  "fst (Process_events T rid es t) = None \<Longrightarrow>
   applied T rid es t = filter (\<lambda>e. Router (Route e) \<noteq> rid) es"
proof (induction es arbitrary: t)
  case Nil
  show ?case by simp
next
  case (Cons e es)
  show ?case
  proof (cases "Router (Route e) = rid")
    case True
    then show ?thesis using Cons by simp
  next
    case False
    obtain err t1 where mr: "manageRoute T (Route e) (EventType_String (Type e)) t = (err, t1)"
      by (cases "manageRoute T (Route e) (EventType_String (Type e)) t")
    show ?thesis
    proof (cases err)
      case None
      then show ?thesis using False mr Cons.IH [of t1] Cons.prems by (simp add: Let_def)
    next
      case (Some x)
      then show ?thesis using False mr Cons.prems by (simp add: Let_def)
    qed
  qed
qed

lemma Process_events_append:
  "Process_events T rid (xs @ ys) t =
     (case Process_events T rid xs t of
        (Some err, t') \<Rightarrow> (Some err, t')
      | (None, t') \<Rightarrow> Process_events T rid ys t')"
  by (induction xs arbitrary: t) (auto simp: Let_def split: prod.splits option.splits)

lemma Process_events_own:
  "\<forall>e\<in>set es. Router (Route e) = rid \<Longrightarrow> Process_events T rid es t = (None, t)"
  by (induction es) auto

subsection \<open>\<^verbatim>\<open>Process\<close> on an advert without dangling pointers\<close>

lemma Process_unfold:
  assumes "\<forall>p\<in>set (slice_elems m (Events a)). event_at m p \<noteq> None"
  shows "Process srt T opts a m t =
     (case Process_events T (opt_Id opts) (map (\<lambda>p. the (event_at m p)) (sorted_copy srt m a)) t of
        (err, t') \<Rightarrow>
           Returns (err, m\<lparr>slice_at := (slice_at m)(brk m \<mapsto> sorted_copy srt m a), brk := Suc (brk m)\<rparr>, t'))"
proof -
  have "\<not> list_ex (\<lambda>p. event_at m p = None) (slice_elems m (Events a))"
    using assms by (simp add: list_ex_iff)
  then show ?thesis
    by (simp add: Process_def Let_def slice_elems_def sorted_copy_def split: prod.splits)
qed

lemma sorted_copy_props:
  assumes "sort_Slice_contract srt"
  shows "mset (sorted_copy srt m a) = mset (slice_elems m (Events a))"
    and "sorted (map (\<lambda>p. Timestamp (the (event_at m p))) (sorted_copy srt m a))"
    and "sorted (map Timestamp (map (\<lambda>p. the (event_at m p)) (sorted_copy srt m a)))"
    and "mset (map (\<lambda>p. the (event_at m p)) (sorted_copy srt m a)) = mset (advert_events m a)"
proof -
  show a: "mset (sorted_copy srt m a) = mset (slice_elems m (Events a))"
    using assms by (simp add: sort_Slice_contract_def sorted_copy_def)
  show b: "sorted (map (\<lambda>p. Timestamp (the (event_at m p))) (sorted_copy srt m a))"
    using assms by (simp add: sort_Slice_contract_def sorted_copy_def)
  from b show "sorted (map Timestamp (map (\<lambda>p. the (event_at m p)) (sorted_copy srt m a)))"
    by (simp add: comp_def)
  from a show "mset (map (\<lambda>p. the (event_at m p)) (sorted_copy srt m a)) = mset (advert_events m a)"
    by (simp add: advert_events_def)
qed

lemma sorted_take_filter:
  "sorted (map f xs) \<Longrightarrow> sorted (map f (take k (filter P xs)))"
proof -
  assume "sorted (map f xs)"
  then have "sorted_wrt (\<lambda>x y. f x \<le> f y) xs" by (simp add: sorted_map)
  then have "sorted_wrt (\<lambda>x y. f x \<le> f y) (filter P xs)" by (rule sorted_wrt_filter)
  then have "sorted_wrt (\<lambda>x y. f x \<le> f y) (take k (filter P xs))" by (rule sorted_wrt_take)
  then show ?thesis by (simp add: sorted_map)
qed

subsection \<open>The example inputs\<close>

lemma ToLower_Delete: "ToLower ''Delete'' = ''delete''"
  by code_simp

lemma ToLower_create: "ToLower ''create'' = ''create''"
  by code_simp

lemma ex_sort_contract: "sort_Slice_contract sort_key"
  by (simp add: sort_Slice_contract_def)

lemmas ex_defs = ex_opts_def ex_route_def ex_memory_def ex_advert_def ex_table_def ex_event_def
  ex_service_def ex_failing_table_def

lemmas run_defs = Process_def slice_elems_def Let_def manageRoute_def spy_def spec_ops_def
  spec_Create_def spec_Delete_def spec_Update_def spec_present_def

lemma ex_run_mixed:
  "Process sort_key (spy (spec_ops sample_Hash 100)) (ex_opts AdvertiseAll) (ex_advert 1) ex_memory
       (ex_table [], []) =
     Returns (None, ex_memory\<lparr>slice_at := (slice_at ex_memory)(20 \<mapsto> [11, 12, 10]), brk := 21\<rparr>,
              (\<lparr>st_routes = [],
                st_emitted = [\<lparr>Type = Create, Timestamp = 100,
                                 Route = ex_route ''10.0.0.1:80'' ''prod'' ''peer-1'' ''network''\<rparr>,
                              \<lparr>Type = Delete, Timestamp = 100,
                                 Route = ex_route ''10.0.0.1:80'' ''prod'' ''peer-1'' ''network''\<rparr>]\<rparr>,
               [CreateCall (ex_route ''10.0.0.1:80'' ''prod'' ''peer-1'' ''network''),
                DeleteCall (ex_route ''10.0.0.1:80'' ''prod'' ''peer-1'' ''network'')]))"
  by (simp add: run_defs ex_defs)

lemma ex_run_own:
  "Process sort_key (spy (spec_ops sample_Hash 100)) (ex_opts AdvertiseAll) (ex_advert 2) ex_memory
       (ex_table [], []) =
     Returns (None, ex_memory\<lparr>slice_at := (slice_at ex_memory)(20 \<mapsto> [13, 12]), brk := 21\<rparr>,
              (ex_table [], []))"
  by (simp add: run_defs ex_defs)

lemma ex_valid1: "list_all (\<lambda>p. event_at ex_memory p \<noteq> None) (slice_elems ex_memory (Events (ex_advert 1)))"
  by (simp add: ex_defs slice_elems_def)

lemma ex_valid2: "list_all (\<lambda>p. event_at ex_memory p \<noteq> None) (slice_elems ex_memory (Events (ex_advert 2)))"
  by (simp add: ex_defs slice_elems_def)

lemma ex_valid1_ball: "\<forall>p\<in>set (slice_elems ex_memory (Events (ex_advert 1))). event_at ex_memory p \<noteq> None"
  using ex_valid1 by (simp add: list_all_iff)

lemma ex_valid2_ball: "\<forall>p\<in>set (slice_elems ex_memory (Events (ex_advert 2))). event_at ex_memory p \<noteq> None"
  using ex_valid2 by (simp add: list_all_iff)

subsection \<open>Loop prevention\<close>

text \<open>
  C3. \<^verbatim>\<open>Process\<close> skips every event whose route was originated by this router: each call
  it makes on the table is for an event of the advert whose \<^verbatim>\<open>Route.Router\<close> differs from
  the router's id. If all events of the advert carry the router's own id, \<^verbatim>\<open>Process\<close>
  makes no call on the table, leaves the table as it was and returns no error. This holds
  for every table, for every sorting function that meets the contract of \<^verbatim>\<open>sort.Slice\<close>,
  and for every advert whose event pointers all refer to events.
\<close>

theorem Process_skips_own_routes:
  assumes "sort_Slice_contract srt"
      and "\<forall>p\<in>set (slice_elems m (Events a)). event_at m p \<noteq> None"
  shows "(\<exists>err m' t' es.
            Process srt (spy T) opts a m (t, []) = Returns (err, m', (t', map call_of es)) \<and>
            Process srt T opts a m t = Returns (err, m', t') \<and>
            set es \<subseteq> set (advert_events m a) \<and>
            (\<forall>e\<in>set es. Router (Route e) \<noteq> opt_Id opts)) \<and>
         ((\<forall>e\<in>set (advert_events m a). Router (Route e) = opt_Id opts) \<longrightarrow>
            (\<exists>m'. Process srt (spy T) opts a m (t, []) = Returns (None, m', (t, [])) \<and>
                  Process srt T opts a m t = Returns (None, m', t)))"
proof -
  let ?ps = "sorted_copy srt m a"
  let ?evs = "map (\<lambda>p. the (event_at m p)) ?ps"
  let ?es = "applied T (opt_Id opts) ?evs t"
  let ?m' = "m\<lparr>slice_at := (slice_at m)(brk m \<mapsto> ?ps), brk := Suc (brk m)\<rparr>"
  have set_evs: "set ?evs = set (advert_events m a)"
    using sorted_copy_props(4) [OF assms(1), of m a] by (metis set_mset_mset)
  obtain err t' where pe: "Process_events T (opt_Id opts) ?evs t = (err, t')"
    by (cases "Process_events T (opt_Id opts) ?evs t")
  have p1: "Process srt T opts a m t = Returns (err, ?m', t')"
    using pe by (simp add: Process_unfold [OF assms(2)])
  have p2: "Process srt (spy T) opts a m (t, []) = Returns (err, ?m', (t', map call_of ?es))"
    using pe by (simp add: Process_unfold [OF assms(2)] Process_events_spy)
  obtain k where k: "?es = take k (filter (\<lambda>e. Router (Route e) \<noteq> opt_Id opts) ?evs)"
    using applied_prefix [of T "opt_Id opts" ?evs t] ..
  have sub: "set ?es \<subseteq> set (advert_events m a)"
  proof
    fix e assume "e \<in> set ?es"
    then have "e \<in> set (filter (\<lambda>e. Router (Route e) \<noteq> opt_Id opts) ?evs)"
      using k by (metis in_set_takeD)
    then show "e \<in> set (advert_events m a)" using set_evs by auto
  qed
  have nonown: "\<forall>e\<in>set ?es. Router (Route e) \<noteq> opt_Id opts"
  proof
    fix e assume "e \<in> set ?es"
    then have "e \<in> set (filter (\<lambda>e. Router (Route e) \<noteq> opt_Id opts) ?evs)"
      using k by (metis in_set_takeD)
    then show "Router (Route e) \<noteq> opt_Id opts" by simp
  qed
  have first: "\<exists>err m' t' es.
            Process srt (spy T) opts a m (t, []) = Returns (err, m', (t', map call_of es)) \<and>
            Process srt T opts a m t = Returns (err, m', t') \<and>
            set es \<subseteq> set (advert_events m a) \<and>
            (\<forall>e\<in>set es. Router (Route e) \<noteq> opt_Id opts)"
    using p1 p2 sub nonown by blast
  have second: "(\<forall>e\<in>set (advert_events m a). Router (Route e) = opt_Id opts) \<longrightarrow>
            (\<exists>m'. Process srt (spy T) opts a m (t, []) = Returns (None, m', (t, [])) \<and>
                  Process srt T opts a m t = Returns (None, m', t))"
  proof
    assume own: "\<forall>e\<in>set (advert_events m a). Router (Route e) = opt_Id opts"
    then have own': "\<forall>e\<in>set ?evs. Router (Route e) = opt_Id opts" using set_evs by simp
    have a1: "Process_events T (opt_Id opts) ?evs t = (None, t)"
      using Process_events_own [OF own'] .
    have a2: "Process_events (spy T) (opt_Id opts) ?evs (t, []) = (None, (t, []))"
      using Process_events_own [OF own'] .
    have "Process srt T opts a m t = Returns (None, ?m', t)"
      using a1 by (simp add: Process_unfold [OF assms(2)])
    moreover have "Process srt (spy T) opts a m (t, []) = Returns (None, ?m', (t, []))"
      using a2 by (simp add: Process_unfold [OF assms(2)])
    ultimately show "\<exists>m'. Process srt (spy T) opts a m (t, []) = Returns (None, m', (t, [])) \<and>
                  Process srt T opts a m t = Returns (None, m', t)" by blast
  qed
  from first second show ?thesis by blast
qed

theorem Process_skips_own_routes_witness:
  "sort_Slice_contract sort_key \<and>
   list_all (\<lambda>p. event_at ex_memory p \<noteq> None) (slice_elems ex_memory (Events (ex_advert 2))) \<and>
   list_all (\<lambda>e. Router (Route e) = opt_Id (ex_opts AdvertiseAll)) (advert_events ex_memory (ex_advert 2)) \<and>
   Process sort_key (spy (spec_ops sample_Hash 100)) (ex_opts AdvertiseAll) (ex_advert 2) ex_memory
       (ex_table [], []) =
     Returns (None, ex_memory\<lparr>slice_at := (slice_at ex_memory)(20 \<mapsto> [13, 12]), brk := 21\<rparr>,
              (ex_table [], []))"
proof -
  have own: "list_all (\<lambda>e. Router (Route e) = opt_Id (ex_opts AdvertiseAll))
               (advert_events ex_memory (ex_advert 2))"
    by (simp add: advert_events_def slice_elems_def ex_defs)
  then have own_ball: "\<forall>e\<in>set (advert_events ex_memory (ex_advert 2)).
                         Router (Route e) = opt_Id (ex_opts AdvertiseAll)"
    by (simp add: list_all_iff)
  from Process_skips_own_routes [OF ex_sort_contract ex_valid2_ball,
         of "spec_ops sample_Hash 100" "ex_opts AdvertiseAll" "ex_table []"] own_ball
  obtain m' where
    "Process sort_key (spy (spec_ops sample_Hash 100)) (ex_opts AdvertiseAll) (ex_advert 2) ex_memory
       (ex_table [], []) = Returns (None, m', (ex_table [], []))"
    by blast
  then have "Process sort_key (spy (spec_ops sample_Hash 100)) (ex_opts AdvertiseAll) (ex_advert 2) ex_memory
       (ex_table [], []) =
     Returns (None, ex_memory\<lparr>slice_at := (slice_at ex_memory)(20 \<mapsto> [13, 12]), brk := 21\<rparr>,
              (ex_table [], []))"
    using ex_run_own by simp
  then show ?thesis
    using ex_sort_contract ex_valid2 own by blast
qed

subsection \<open>Order of application\<close>

text \<open>
  C4. \<^verbatim>\<open>Process\<close> applies the events of an advert in non-decreasing timestamp order,
  whatever their order in \<^verbatim>\<open>a.Events\<close>: the local slice it runs over is a permutation of
  the advert's event pointers sorted by timestamp, and the calls made on the table are,
  in this order, those of the events of that slice that the router did not originate (all
  of them when no error is returned, an initial part otherwise), so their timestamps are
  non-decreasing.
\<close>

theorem Process_timestamp_order:
  assumes "sort_Slice_contract srt"
      and "\<forall>p\<in>set (slice_elems m (Events a)). event_at m p \<noteq> None"
  shows "\<exists>err m' t' ps es.
           Process srt (spy T) opts a m (t, []) = Returns (err, m', (t', map call_of es)) \<and>
           Process srt T opts a m t = Returns (err, m', t') \<and>
           slice_at m' (brk m) = Some ps \<and>
           mset ps = mset (slice_elems m (Events a)) \<and>
           sorted (map (\<lambda>p. Timestamp (the (event_at m p))) ps) \<and>
           (\<exists>k. es = take k (filter (\<lambda>e. Router (Route e) \<noteq> opt_Id opts) (map (\<lambda>p. the (event_at m p)) ps))) \<and>
           (err = None \<longrightarrow> es = filter (\<lambda>e. Router (Route e) \<noteq> opt_Id opts) (map (\<lambda>p. the (event_at m p)) ps)) \<and>
           sorted (map Timestamp es)"
proof -
  let ?ps = "sorted_copy srt m a"
  let ?evs = "map (\<lambda>p. the (event_at m p)) ?ps"
  let ?es = "applied T (opt_Id opts) ?evs t"
  let ?m' = "m\<lparr>slice_at := (slice_at m)(brk m \<mapsto> ?ps), brk := Suc (brk m)\<rparr>"
  obtain err t' where pe: "Process_events T (opt_Id opts) ?evs t = (err, t')"
    by (cases "Process_events T (opt_Id opts) ?evs t")
  have p1: "Process srt T opts a m t = Returns (err, ?m', t')"
    using pe by (simp add: Process_unfold [OF assms(2)])
  have p2: "Process srt (spy T) opts a m (t, []) = Returns (err, ?m', (t', map call_of ?es))"
    using pe by (simp add: Process_unfold [OF assms(2)] Process_events_spy)
  obtain k where k: "?es = take k (filter (\<lambda>e. Router (Route e) \<noteq> opt_Id opts) ?evs)"
    using applied_prefix [of T "opt_Id opts" ?evs t] ..
  have all: "err = None \<longrightarrow> ?es = filter (\<lambda>e. Router (Route e) \<noteq> opt_Id opts) ?evs"
    using applied_all [of T "opt_Id opts" ?evs t] pe by simp
  have srt_es: "sorted (map Timestamp ?es)"
    using sorted_take_filter [OF sorted_copy_props(3) [OF assms(1)]] k by metis
  have sl: "slice_at ?m' (brk m) = Some ?ps" by simp
  show ?thesis
    using p1 p2 sl sorted_copy_props(1,2) [OF assms(1), of m a] k all srt_es by blast
qed

theorem Process_timestamp_order_witness:
  "sort_Slice_contract sort_key \<and>
   list_all (\<lambda>p. event_at ex_memory p \<noteq> None) (slice_elems ex_memory (Events (ex_advert 1))) \<and>
   map Timestamp (advert_events ex_memory (ex_advert 1)) = [30, 10, 20] \<and>
   (\<exists>m' t' es.
      Process sort_key (spy (spec_ops sample_Hash 100)) (ex_opts AdvertiseAll) (ex_advert 1) ex_memory
        (ex_table [], []) = Returns (None, m', (t', map call_of es)) \<and>
      slice_at m' (brk ex_memory) = Some [11, 12, 10] \<and>
      map Timestamp es = [10, 30] \<and> sorted (map Timestamp es))"
proof -
  have order: "map Timestamp (advert_events ex_memory (ex_advert 1)) = [30, 10, 20]"
    by (simp add: advert_events_def slice_elems_def ex_defs)
  from Process_timestamp_order [OF ex_sort_contract ex_valid1_ball,
         of "spec_ops sample_Hash 100" "ex_opts AdvertiseAll" "ex_table []"]
  obtain err m' t' ps es where
    run: "Process sort_key (spy (spec_ops sample_Hash 100)) (ex_opts AdvertiseAll) (ex_advert 1) ex_memory
            (ex_table [], []) = Returns (err, m', (t', map call_of es))" and
    ps: "slice_at m' (brk ex_memory) = Some ps" and
    all: "err = None \<longrightarrow> es = filter (\<lambda>e. Router (Route e) \<noteq> opt_Id (ex_opts AdvertiseAll))
                                 (map (\<lambda>p. the (event_at ex_memory p)) ps)" and
    sorted: "sorted (map Timestamp es)"
    by blast
  from run ex_run_mixed have err: "err = None" and
    m': "m' = ex_memory\<lparr>slice_at := (slice_at ex_memory)(20 \<mapsto> [11, 12, 10]), brk := 21\<rparr>"
    by simp_all
  from ps m' have ps': "ps = [11, 12, 10]" by (simp add: ex_defs)
  from all err ps' have ts: "map Timestamp es = [10, 30]" by (simp add: ex_defs)
  from run err have run': "Process sort_key (spy (spec_ops sample_Hash 100)) (ex_opts AdvertiseAll)
        (ex_advert 1) ex_memory (ex_table [], []) = Returns (None, m', (t', map call_of es))"
    by simp
  from ps ps' have copy: "slice_at m' (brk ex_memory) = Some [11, 12, 10]" by simp
  have "\<exists>m' t' es.
      Process sort_key (spy (spec_ops sample_Hash 100)) (ex_opts AdvertiseAll) (ex_advert 1) ex_memory
        (ex_table [], []) = Returns (None, m', (t', map call_of es)) \<and>
      slice_at m' (brk ex_memory) = Some [11, 12, 10] \<and>
      map Timestamp es = [10, 30] \<and> sorted (map Timestamp es)"
    using run' copy ts sorted by (intro exI conjI)
  then show ?thesis
    using ex_sort_contract ex_valid1 order by (intro conjI)
qed

subsection \<open>Error policy\<close>

text \<open>
  C6. \<^verbatim>\<open>manageRoute\<close> absorbs \<^verbatim>\<open>ErrDuplicateRoute\<close> for the action \<^verbatim>\<open>create\<close> and
  \<^verbatim>\<open>ErrRouteNotFound\<close> for the action \<^verbatim>\<open>delete\<close> and returns success; any other error of
  \<^verbatim>\<open>Create\<close> or \<^verbatim>\<open>Delete\<close>, any error of \<^verbatim>\<open>Update\<close>, and an unknown action string are
  returned wrapped. In \<^verbatim>\<open>Process\<close>, when \<^verbatim>\<open>manageRoute\<close> fails on an event, the error is
  returned wrapped and the table is left as that call left it: the events that follow in
  the sorted slice are not applied.
\<close>

theorem manageRoute_error_policy:
  "(table_Create T r t = (Some ErrDuplicateRoute, t') \<longrightarrow> manageRoute T r ''create'' t = (None, t')) \<and>
   (table_Delete T r t = (Some ErrRouteNotFound, t') \<longrightarrow> manageRoute T r ''delete'' t = (None, t')) \<and>
   (table_Create T r t = (Some e, t') \<and> e \<noteq> ErrDuplicateRoute \<longrightarrow>
      manageRoute T r ''create'' t = (Some (FailedAdding (Service r) e), t')) \<and>
   (table_Delete T r t = (Some e, t') \<and> e \<noteq> ErrRouteNotFound \<longrightarrow>
      manageRoute T r ''delete'' t = (Some (FailedDeleting (Service r) e), t')) \<and>
   (table_Update T r t = (Some e, t') \<longrightarrow>
      manageRoute T r ''update'' t = (Some (FailedUpdating (Service r) e), t')) \<and>
   (action \<noteq> ''create'' \<and> action \<noteq> ''delete'' \<and> action \<noteq> ''update'' \<longrightarrow>
      manageRoute T r action t = (Some (UnknownAction (Service r) action), t)) \<and>
   ((\<forall>p\<in>set (slice_elems m (Events a)). event_at m p \<noteq> None) \<and>
    sorted_copy srt m a = pre @ p # post \<and> event_at m p = Some ev \<and>
    Router (Route ev) \<noteq> opt_Id opts \<and>
    Process_events T (opt_Id opts) (map (\<lambda>q. the (event_at m q)) pre) t = (None, ta) \<and>
    manageRoute T (Route ev) (EventType_String (Type ev)) ta = (Some x, tb) \<longrightarrow>
      (\<exists>m'. Process srt T opts a m t = Returns (Some (FailedApplying (Type ev) x), m', tb)))"
proof -
  have abort: "(\<forall>p\<in>set (slice_elems m (Events a)). event_at m p \<noteq> None) \<and>
    sorted_copy srt m a = pre @ p # post \<and> event_at m p = Some ev \<and>
    Router (Route ev) \<noteq> opt_Id opts \<and>
    Process_events T (opt_Id opts) (map (\<lambda>q. the (event_at m q)) pre) t = (None, ta) \<and>
    manageRoute T (Route ev) (EventType_String (Type ev)) ta = (Some x, tb) \<longrightarrow>
      (\<exists>m'. Process srt T opts a m t = Returns (Some (FailedApplying (Type ev) x), m', tb))"
  proof
    assume h: "(\<forall>p\<in>set (slice_elems m (Events a)). event_at m p \<noteq> None) \<and>
      sorted_copy srt m a = pre @ p # post \<and> event_at m p = Some ev \<and>
      Router (Route ev) \<noteq> opt_Id opts \<and>
      Process_events T (opt_Id opts) (map (\<lambda>q. the (event_at m q)) pre) t = (None, ta) \<and>
      manageRoute T (Route ev) (EventType_String (Type ev)) ta = (Some x, tb)"
    then have valid: "\<forall>p\<in>set (slice_elems m (Events a)). event_at m p \<noteq> None" by blast
    have "Process_events T (opt_Id opts) (map (\<lambda>q. the (event_at m q)) (pre @ p # post)) t =
            (Some (FailedApplying (Type ev) x), tb)"
      using h by (simp add: Process_events_append Let_def)
    then show "\<exists>m'. Process srt T opts a m t = Returns (Some (FailedApplying (Type ev) x), m', tb)"
      using h by (simp add: Process_unfold [OF valid])
  qed
  show ?thesis
    using abort by (simp add: manageRoute_def)
qed

theorem manageRoute_error_policy_witness:
  "manageRoute (spec_ops sample_Hash 100) (ex_route ''10.0.0.1:80'' ''prod'' ''peer-1'' ''network'') ''create''
      (ex_table [ex_route ''10.0.0.1:80'' ''prod'' ''peer-1'' ''network'']) =
     (None, ex_table [ex_route ''10.0.0.1:80'' ''prod'' ''peer-1'' ''network'']) \<and>
   manageRoute (spec_ops sample_Hash 100) (ex_route ''10.0.0.1:80'' ''prod'' ''peer-1'' ''network'') ''delete''
      (ex_table []) = (None, ex_table []) \<and>
   manageRoute ex_failing_table (ex_route ''10.0.0.1:80'' ''prod'' ''peer-1'' ''network'') ''create'' () =
     (Some (FailedAdding ''cart'' (ErrTable ''read-only'')), ()) \<and>
   manageRoute ex_failing_table (ex_route ''10.0.0.1:80'' ''prod'' ''peer-1'' ''network'') ''delete'' () =
     (Some (FailedDeleting ''cart'' (ErrTable ''read-only'')), ()) \<and>
   manageRoute ex_failing_table (ex_route ''10.0.0.1:80'' ''prod'' ''peer-1'' ''network'') ''update'' () =
     (Some (FailedUpdating ''cart'' (ErrTable ''read-only'')), ()) \<and>
   manageRoute ex_failing_table (ex_route ''10.0.0.1:80'' ''prod'' ''peer-1'' ''network'') ''upsert'' () =
     (Some (UnknownAction ''cart'' ''upsert''), ()) \<and>
   (\<exists>m'. Process sort_key (spy ex_failing_table) (ex_opts AdvertiseAll) (ex_advert 1) ex_memory ((), []) =
      Returns (Some (FailedApplying Create (FailedAdding ''cart'' (ErrTable ''read-only''))), m',
               ((), [CreateCall (ex_route ''10.0.0.1:80'' ''prod'' ''peer-1'' ''network'')])))"
proof -
  let ?r = "ex_route ''10.0.0.1:80'' ''prod'' ''peer-1'' ''network''"
  have svc: "Service ?r = ''cart''" by (simp add: ex_route_def)
  have dup: "table_Create (spec_ops sample_Hash 100) ?r (ex_table [?r]) = (Some ErrDuplicateRoute, ex_table [?r])"
    by (simp add: spec_ops_def spec_Create_def spec_present_def ex_table_def)
  have c1: "manageRoute (spec_ops sample_Hash 100) ?r ''create'' (ex_table [?r]) = (None, ex_table [?r])"
    using manageRoute_error_policy [where T = "spec_ops sample_Hash 100" and r = ?r and
        t = "ex_table [?r]" and t' = "ex_table [?r]"] dup
    by blast
  have nf: "table_Delete (spec_ops sample_Hash 100) ?r (ex_table []) = (Some ErrRouteNotFound, ex_table [])"
    by (simp add: spec_ops_def spec_Delete_def spec_present_def ex_table_def)
  have c2: "manageRoute (spec_ops sample_Hash 100) ?r ''delete'' (ex_table []) = (None, ex_table [])"
    using manageRoute_error_policy [where T = "spec_ops sample_Hash 100" and r = ?r and
        t = "ex_table []" and t' = "ex_table []"] nf
    by blast
  have fc: "table_Create ex_failing_table ?r () = (Some (ErrTable ''read-only''), ())"
    and fd: "table_Delete ex_failing_table ?r () = (Some (ErrTable ''read-only''), ())"
    and fu: "table_Update ex_failing_table ?r () = (Some (ErrTable ''read-only''), ())"
    by (simp_all add: ex_failing_table_def)
  have ne: "ErrTable ''read-only'' \<noteq> ErrDuplicateRoute" "ErrTable ''read-only'' \<noteq> ErrRouteNotFound"
    by simp_all
  have ua: "''upsert'' \<noteq> ''create'' \<and> ''upsert'' \<noteq> ''delete'' \<and> ''upsert'' \<noteq> ''update''"
    by simp
  note P = manageRoute_error_policy [where T = ex_failing_table and r = ?r and t = "()" and t' = "()"
      and e = "ErrTable ''read-only''" and action = "''upsert''"]
  have c3: "manageRoute ex_failing_table ?r ''create'' () =
              (Some (FailedAdding ''cart'' (ErrTable ''read-only'')), ())"
    using P fc ne svc by metis
  have c4: "manageRoute ex_failing_table ?r ''delete'' () =
              (Some (FailedDeleting ''cart'' (ErrTable ''read-only'')), ())"
    using P fd ne svc by metis
  have c5: "manageRoute ex_failing_table ?r ''update'' () =
              (Some (FailedUpdating ''cart'' (ErrTable ''read-only'')), ())"
    using P fu svc by metis
  have c6: "manageRoute ex_failing_table ?r ''upsert'' () = (Some (UnknownAction ''cart'' ''upsert''), ())"
    using P ua svc by metis
  let ?ev = "\<lparr>Type = Create, Timestamp = 10, Route = ?r\<rparr>"
  have sc: "sorted_copy sort_key ex_memory (ex_advert 1) = [] @ 11 # [12, 10]"
    by (simp add: sorted_copy_def slice_elems_def ex_defs)
  have at: "event_at ex_memory 11 = Some ?ev" by (simp add: ex_memory_def)
  have other: "Router (Route ?ev) \<noteq> opt_Id (ex_opts AdvertiseAll)"
    by (simp add: ex_route_def ex_opts_def)
  have pre: "Process_events (spy ex_failing_table) (opt_Id (ex_opts AdvertiseAll))
               (map (\<lambda>q. the (event_at ex_memory q)) []) ((), []) = (None, ((), []))"
    by simp
  have fail: "manageRoute (spy ex_failing_table) (Route ?ev) (EventType_String (Type ?ev)) ((), []) =
                (Some (FailedAdding ''cart'' (ErrTable ''read-only'')), ((), [CreateCall ?r]))"
    by (simp add: manageRoute_def spy_def ex_failing_table_def ex_route_def)
  have c7: "\<exists>m'. Process sort_key (spy ex_failing_table) (ex_opts AdvertiseAll) (ex_advert 1) ex_memory ((), []) =
      Returns (Some (FailedApplying Create (FailedAdding ''cart'' (ErrTable ''read-only''))), m',
               ((), [CreateCall ?r]))"
    using manageRoute_error_policy [where T = "spy ex_failing_table" and m = ex_memory and a = "ex_advert 1"
        and srt = sort_key and pre = "[]" and p = 11 and post = "[12, 10]" and ev = ?ev
        and opts = "ex_opts AdvertiseAll" and t = "((), [])" and ta = "((), [])"
        and x = "FailedAdding ''cart'' (ErrTable ''read-only'')" and tb = "((), [CreateCall ?r])"]
      ex_valid1_ball sc at other pre fail
    by simp
  show ?thesis using c1 c2 c3 c4 c5 c6 c7 by (intro conjI)
qed

subsection \<open>The advert is not modified\<close>

text \<open>
  C9. \<^verbatim>\<open>Process\<close> does not mutate its argument: the sort works on a newly allocated copy,
  so when \<^verbatim>\<open>Process\<close> returns, the array of \<^verbatim>\<open>a.Events\<close> holds the same event pointers in
  the same order as before, as does every other array allocated before the call, and no
  event has changed.
\<close>

theorem Process_leaves_advert_untouched:
  assumes "Events a < brk m"
      and "Process srt T opts a m t = Returns (err, m', t')"
  shows "slice_at m' (Events a) = slice_at m (Events a) \<and>
         slice_elems m' (Events a) = slice_elems m (Events a) \<and>
         event_at m' = event_at m \<and>
         (\<forall>q. q < brk m \<longrightarrow> slice_at m' q = slice_at m q)"
  using assms
  by (auto simp: Process_def Let_def slice_elems_def split: if_splits prod.splits)

theorem Process_leaves_advert_untouched_witness:
  "Events (ex_advert 1) < brk ex_memory \<and>
   slice_at ex_memory (Events (ex_advert 1)) = Some [10, 11, 12] \<and>
   (\<exists>m' t'. Process sort_key (spec_ops sample_Hash 100) (ex_opts AdvertiseAll) (ex_advert 1) ex_memory
              (ex_table []) = Returns (None, m', t') \<and>
           slice_at m' (Events (ex_advert 1)) = Some [10, 11, 12] \<and>
           slice_at m' (brk ex_memory) = Some [11, 12, 10] \<and>
           event_at m' = event_at ex_memory)"
proof -
  have alloc: "Events (ex_advert 1) < brk ex_memory"
    by (simp add: ex_defs)
  have run: "Process sort_key (spec_ops sample_Hash 100) (ex_opts AdvertiseAll) (ex_advert 1) ex_memory
              (ex_table []) =
     Returns (None, ex_memory\<lparr>slice_at := (slice_at ex_memory)(20 \<mapsto> [11, 12, 10]), brk := 21\<rparr>,
              \<lparr>st_routes = [],
                st_emitted = [\<lparr>Type = Create, Timestamp = 100,
                                 Route = ex_route ''10.0.0.1:80'' ''prod'' ''peer-1'' ''network''\<rparr>,
                              \<lparr>Type = Delete, Timestamp = 100,
                                 Route = ex_route ''10.0.0.1:80'' ''prod'' ''peer-1'' ''network''\<rparr>]\<rparr>)"
    by (simp add: run_defs ex_defs)
  have before: "slice_at ex_memory (Events (ex_advert 1)) = Some [10, 11, 12]"
    by (simp add: ex_defs)
  have copy: "slice_at (ex_memory\<lparr>slice_at := (slice_at ex_memory)(20 \<mapsto> [11, 12, 10]), brk := 21\<rparr>)
                (brk ex_memory) = Some [11, 12, 10]"
    by (simp add: ex_defs)
  from Process_leaves_advert_untouched [OF alloc run]
  have same: "slice_at (ex_memory\<lparr>slice_at := (slice_at ex_memory)(20 \<mapsto> [11, 12, 10]), brk := 21\<rparr>)
                (Events (ex_advert 1)) = slice_at ex_memory (Events (ex_advert 1))"
    and evs: "event_at (ex_memory\<lparr>slice_at := (slice_at ex_memory)(20 \<mapsto> [11, 12, 10]), brk := 21\<rparr>) =
              event_at ex_memory"
    by blast+
  show ?thesis
    using alloc before run copy same evs by metis
qed

subsection \<open>Deleting a service without nodes\<close>

text \<open>
  C5. When the action is \<^verbatim>\<open>delete\<close> (in any letter case) and the service has no nodes,
  \<^verbatim>\<open>manageRoutes\<close> makes exactly one call on the table,
  \<^verbatim>\<open>deleteService(service.Name, network)\<close>, and returns success. On the table of the
  specification this removes every route of that service in that network, keeps all
  others, and emits one \<^verbatim>\<open>Delete\<close> event per removed route: with k routes removed, the
  table holds k routes less and k events more.
\<close>

theorem manageRoutes_delete_without_nodes:
  assumes "ToLower action = ''delete''" and "srv_Nodes service = []"
  shows "manageRoutes T opts service action network t =
           (None, table_deleteService T (srv_Name service) network t) \<and>
         manageRoutes (spy T) opts service action network (t, []) =
           (None, (table_deleteService T (srv_Name service) network t,
                   [DeleteServiceCall (srv_Name service) network])) \<and>
         (\<exists>st'. manageRoutes (spec_ops H now) opts service action network st = (None, st') \<and>
            st_routes st' = filter (\<lambda>(r, seen). \<not> spec_matches (srv_Name service) network r) (st_routes st) \<and>
            st_emitted st' = st_emitted st @
               map (\<lambda>(r, seen). \<lparr>Type = Delete, Timestamp = now, Route = r\<rparr>)
                   (filter (\<lambda>(r, seen). spec_matches (srv_Name service) network r) (st_routes st)) \<and>
            (\<forall>(r, seen)\<in>set (st_routes st'). \<not> (Service r = srv_Name service \<and> Network r = network)) \<and>
            length (st_routes st') +
              length (filter (\<lambda>(r, seen). spec_matches (srv_Name service) network r) (st_routes st)) =
              length (st_routes st) \<and>
            length (st_emitted st') = length (st_emitted st) +
              length (filter (\<lambda>(r, seen). spec_matches (srv_Name service) network r) (st_routes st)))"
proof -
  have len: "length (filter (\<lambda>(r, seen). \<not> spec_matches (srv_Name service) network r) (st_routes st)) +
        length (filter (\<lambda>(r, seen). spec_matches (srv_Name service) network r) (st_routes st)) =
        length (st_routes st)"
    using sum_length_filter_compl [of "\<lambda>(r, seen). spec_matches (srv_Name service) network r" "st_routes st"]
    by (simp add: case_prod_unfold)
  show ?thesis
    using assms len
    by (auto simp: manageRoutes_def createRoutes_def Let_def spy_def spec_ops_def
        spec_deleteService_def spec_matches_def)
qed

theorem manageRoutes_delete_without_nodes_witness:
  "ToLower ''Delete'' = ''delete'' \<and> srv_Nodes (ex_service []) = [] \<and>
   manageRoutes (spec_ops sample_Hash 100) (ex_opts AdvertiseAll) (ex_service []) ''Delete'' ''prod''
      (ex_table [ex_route ''10.0.0.1:80'' ''prod'' ''self'' ''local'',
                 ex_route ''10.0.0.2:80'' ''prod'' ''self'' ''local'',
                 ex_route ''10.0.0.9:80'' ''staging'' ''self'' ''local'',
                 ex_route ''10.0.0.3:80'' ''prod'' ''self'' ''local'']) =
     (None, \<lparr>st_routes = [(ex_route ''10.0.0.9:80'' ''staging'' ''self'' ''local'', 0)],
             st_emitted =
               [\<lparr>Type = Delete, Timestamp = 100, Route = ex_route ''10.0.0.1:80'' ''prod'' ''self'' ''local''\<rparr>,
                \<lparr>Type = Delete, Timestamp = 100, Route = ex_route ''10.0.0.2:80'' ''prod'' ''self'' ''local''\<rparr>,
                \<lparr>Type = Delete, Timestamp = 100, Route = ex_route ''10.0.0.3:80'' ''prod'' ''self'' ''local''\<rparr>]\<rparr>)"
proof -
  let ?st = "ex_table [ex_route ''10.0.0.1:80'' ''prod'' ''self'' ''local'',
                 ex_route ''10.0.0.2:80'' ''prod'' ''self'' ''local'',
                 ex_route ''10.0.0.9:80'' ''staging'' ''self'' ''local'',
                 ex_route ''10.0.0.3:80'' ''prod'' ''self'' ''local'']"
  have nodes: "srv_Nodes (ex_service []) = []" by (simp add: ex_defs)
  from manageRoutes_delete_without_nodes [OF ToLower_Delete nodes,
         where H = sample_Hash and now = 100 and opts = "ex_opts AdvertiseAll"
           and network = "''prod''" and st = ?st and T = "spec_ops sample_Hash 100" and t = ?st]
  obtain st' where
    run: "manageRoutes (spec_ops sample_Hash 100) (ex_opts AdvertiseAll) (ex_service []) ''Delete'' ''prod'' ?st =
            (None, st')" and
    routes: "st_routes st' =
       filter (\<lambda>(r, seen). \<not> spec_matches (srv_Name (ex_service [])) ''prod'' r) (st_routes ?st)" and
    emitted: "st_emitted st' = st_emitted ?st @
       map (\<lambda>(r, seen). \<lparr>Type = Delete, Timestamp = 100, Route = r\<rparr>)
           (filter (\<lambda>(r, seen). spec_matches (srv_Name (ex_service [])) ''prod'' r) (st_routes ?st))"
    by blast
  have "st' = \<lparr>st_routes = [(ex_route ''10.0.0.9:80'' ''staging'' ''self'' ''local'', 0)],
             st_emitted =
               [\<lparr>Type = Delete, Timestamp = 100, Route = ex_route ''10.0.0.1:80'' ''prod'' ''self'' ''local''\<rparr>,
                \<lparr>Type = Delete, Timestamp = 100, Route = ex_route ''10.0.0.2:80'' ''prod'' ''self'' ''local''\<rparr>,
                \<lparr>Type = Delete, Timestamp = 100, Route = ex_route ''10.0.0.3:80'' ''prod'' ''self'' ''local''\<rparr>]\<rparr>"
    using routes emitted by (cases st') (simp add: ex_defs spec_matches_def)
  then show ?thesis using run ToLower_Delete nodes by simp
qed

subsection \<open>Watch results without a service\<close>

text \<open>
  C10. A watch result whose \<^verbatim>\<open>Service\<close> is \<^verbatim>\<open>nil\<close> is skipped: \<^verbatim>\<open>watchRegistry\<close> behaves
  on a sequence of results that contains it exactly as on the sequence without it, so it
  makes no call on the table for it, returns no error because of it, and goes on with the
  next result.
\<close>

theorem watchRegistry_skips_nil_service:
  "watchRegistry T opts (pre @ NextResult \<lparr>res_Action = action, res_Service = None\<rparr> # post) t =
   watchRegistry T opts (pre @ post) t"
proof (induction pre arbitrary: t)
  case Nil
  show ?case by simp
next
  case (Cons nx pre)
  show ?case
  proof (cases nx)
    case (NextResult res)
    then show ?thesis using Cons.IH
      by (simp split: option.splits prod.splits)
  next
    case (NextError err)
    then show ?thesis by simp
  qed
qed

theorem watchRegistry_skips_nil_service_witness:
  "watchRegistry (spy (spec_ops sample_Hash 100)) (ex_opts AdvertiseAll)
     ([NextResult \<lparr>res_Action = ''create'',
                   res_Service = Some (ex_service [\<lparr>node_Id = ''n1'', node_Address = ''10.0.0.1:80'',
                                                    node_Metadata = None\<rparr>])\<rparr>] @
      NextResult \<lparr>res_Action = ''delete'', res_Service = None\<rparr> #
      [NextError ErrWatcherStopped]) (ex_table [], []) =
   (Returned None,
    (\<lparr>st_routes = [(ex_route ''10.0.0.1:80'' ''prod'' ''self'' ''local'', 100)],
      st_emitted = [\<lparr>Type = Create, Timestamp = 100,
                      Route = ex_route ''10.0.0.1:80'' ''prod'' ''self'' ''local''\<rparr>]\<rparr>,
     [CreateCall (ex_route ''10.0.0.1:80'' ''prod'' ''self'' ''local'')]))"
proof -
  have "watchRegistry (spy (spec_ops sample_Hash 100)) (ex_opts AdvertiseAll)
     ([NextResult \<lparr>res_Action = ''create'',
                   res_Service = Some (ex_service [\<lparr>node_Id = ''n1'', node_Address = ''10.0.0.1:80'',
                                                    node_Metadata = None\<rparr>])\<rparr>] @
      [NextError ErrWatcherStopped]) (ex_table [], []) =
   (Returned None,
    (\<lparr>st_routes = [(ex_route ''10.0.0.1:80'' ''prod'' ''self'' ''local'', 100)],
      st_emitted = [\<lparr>Type = Create, Timestamp = 100,
                      Route = ex_route ''10.0.0.1:80'' ''prod'' ''self'' ''local''\<rparr>]\<rparr>,
     [CreateCall (ex_route ''10.0.0.1:80'' ''prod'' ''self'' ''local'')]))"
    by (simp add: manageRoutes_def createRoutes_def getDomain_def index_map_def ToLower_create
        DefaultLink_def DefaultLocalMetric_def run_defs ex_defs)
  then show ?thesis
    by (simp only: watchRegistry_skips_nil_service)
qed

subsection \<open>The aggregation map\<close>

lemma on_event_lookup:
  "on_event H opts (Some e) m k =
     (case m k of Some ev \<Rightarrow> Some ev
      | None \<Rightarrow> if admitted opts e \<and> H (Route e) = k then Some e else None)"
  by (auto simp: on_event_def admitted_def Let_def split: option.splits)

lemma on_event_present:
  "m (H (Route e)) \<noteq> None \<Longrightarrow> on_event H opts (Some e) m = m"
  by (auto simp: on_event_def Let_def split: option.splits)

lemma advertiseEvents_events:
  "advertiseEvents H opts (map (\<lambda>x. TableEvent (Some x)) es @ ws) m =
   advertiseEvents H opts ws (foldl (\<lambda>m x. on_event H opts (Some x) m) m es)"
  by (induction es arbitrary: m) auto

lemma foldl_first_wins:
  "foldl (\<lambda>m x. on_event H opts (Some x) m) m es k =
     (case m k of Some ev \<Rightarrow> Some ev
      | None \<Rightarrow> find (\<lambda>x. admitted opts x \<and> H (Route x) = k) es)"
proof (induction es arbitrary: m)
  case Nil
  show ?case by (simp split: option.splits)
next
  case (Cons x es)
  have "foldl (\<lambda>m x. on_event H opts (Some x) m) m (x # es) k =
        foldl (\<lambda>m x. on_event H opts (Some x) m) (on_event H opts (Some x) m) es k"
    by simp
  also have "\<dots> = (case on_event H opts (Some x) m k of Some ev \<Rightarrow> Some ev
                    | None \<Rightarrow> find (\<lambda>x. admitted opts x \<and> H (Route x) = k) es)"
    by (rule Cons.IH)
  also have "\<dots> = (case m k of Some ev \<Rightarrow> Some ev
                    | None \<Rightarrow> find (\<lambda>x. admitted opts x \<and> H (Route x) = k) (x # es))"
    by (simp add: on_event_lookup split: option.splits)
  finally show ?case .
qed

lemma keyed_on_event: "keyed H m \<Longrightarrow> keyed H (on_event H opts e0 m)"
  by (auto simp: keyed_def on_event_def Let_def split: option.splits if_splits)

lemma keyed_foldl: "keyed H m \<Longrightarrow> keyed H (foldl (\<lambda>m x. on_event H opts (Some x) m) m es)"
  by (induction es arbitrary: m) (auto simp: keyed_on_event)

lemma collect_none:
  "m k = None \<Longrightarrow> collect opts (k # ks) m acc = collect opts ks m acc"
  by simp

lemma collect_held:
  "m k = Some ev \<Longrightarrow> \<not> passes opts ev \<Longrightarrow> collect opts (k # ks) m acc = collect opts ks m acc"
  by (simp add: passes_def)

lemma collect_taken:
  "m k = Some ev \<Longrightarrow> passes opts ev \<Longrightarrow>
   collect opts (k # ks) m acc = collect opts ks (m(k := None)) (acc @ [ev])"
  by (auto simp: passes_def)

lemma collect_acc:
  "fst (collect opts ks m acc) = acc @ fst (collect opts ks m [])"
proof (induction ks arbitrary: m acc)
  case Nil
  show ?case by simp
next
  case (Cons k ks)
  show ?case
  proof (cases "m k")
    case None
    show ?thesis
      unfolding collect_none [where m = m and k = k, OF None] by (rule Cons.IH)
  next
    case (Some ev)
    show ?thesis
    proof (cases "passes opts ev")
      case False
      show ?thesis
        unfolding collect_held [where m = m and k = k, OF Some False] by (rule Cons.IH)
    next
      case True
      have "fst (collect opts ks (m(k := None)) (acc @ [ev])) =
            (acc @ [ev]) @ fst (collect opts ks (m(k := None)) [])"
        by (rule Cons.IH)
      moreover have "fst (collect opts ks (m(k := None)) ([] @ [ev])) =
            ([] @ [ev]) @ fst (collect opts ks (m(k := None)) [])"
        by (rule Cons.IH)
      ultimately show ?thesis
        unfolding collect_taken [where m = m and k = k, OF Some True] by (simp only: append_assoc append_Nil)
    qed
  qed
qed

lemma keyed_delete: "keyed H m \<Longrightarrow> keyed H (m(k := None))"
  by (simp add: keyed_def)

lemma keyed_hash: "keyed H m \<Longrightarrow> m k = Some e \<Longrightarrow> H (Route e) = k"
  by (simp add: keyed_def)

lemma collect_other:
  "h \<notin> set ks \<Longrightarrow> keyed H m \<Longrightarrow>
   filter (\<lambda>x. H (Route x) = h) (fst (collect opts ks m [])) = [] \<and> snd (collect opts ks m acc) h = m h"
proof (induction ks arbitrary: m acc)
  case Nil
  show ?case by simp
next
  case (Cons k ks)
  have hk: "h \<noteq> k" and hks: "h \<notin> set ks" using Cons.prems(1) by auto
  show ?case
  proof (cases "m k")
    case None
    show ?thesis
      unfolding collect_none [where m = m and k = k, OF None] by (rule Cons.IH [OF hks Cons.prems(2)])
  next
    case (Some ev)
    have hev: "H (Route ev) \<noteq> h" using keyed_hash [where m = m and k = k, OF Cons.prems(2) Some] hk by simp
    show ?thesis
    proof (cases "passes opts ev")
      case False
      show ?thesis
        unfolding collect_held [where m = m and k = k, OF Some False] by (rule Cons.IH [OF hks Cons.prems(2)])
    next
      case True
      have step: "fst (collect opts ks (m(k := None)) ([] @ [ev])) =
            ([] @ [ev]) @ fst (collect opts ks (m(k := None)) [])"
        by (rule collect_acc)
      have ih: "filter (\<lambda>x. H (Route x) = h) (fst (collect opts ks (m(k := None)) [])) = [] \<and>
                snd (collect opts ks (m(k := None)) (acc @ [ev])) h = (m(k := None)) h"
        by (rule Cons.IH [OF hks keyed_delete [OF Cons.prems(2)]])
      have mh: "(m(k := None)) h = m h" using hk by simp
      show ?thesis
        unfolding collect_taken [where m = m and k = k, OF Some True] step
        using ih hev mh by simp
    qed
  qed
qed

lemma collect_one:
  "distinct ks \<Longrightarrow> h \<in> set ks \<Longrightarrow> keyed H m \<Longrightarrow> m h = Some e \<Longrightarrow> passes opts e \<Longrightarrow>
   filter (\<lambda>x. H (Route x) = h) (fst (collect opts ks m [])) = [e] \<and> snd (collect opts ks m acc) h = None"
proof (induction ks arbitrary: m acc)
  case Nil
  then show ?case by simp
next
  case (Cons k ks)
  show ?case
  proof (cases "k = h")
    case True
    then have hks: "h \<notin> set ks" using Cons.prems(1) by simp
    have mk: "m k = Some e" using True Cons.prems(4) by simp
    have he: "H (Route e) = h" using keyed_hash [where m = m and k = h, OF Cons.prems(3,4)] .
    have step: "fst (collect opts ks (m(k := None)) ([] @ [e])) =
          ([] @ [e]) @ fst (collect opts ks (m(k := None)) [])"
      by (rule collect_acc)
    have other: "filter (\<lambda>x. H (Route x) = h) (fst (collect opts ks (m(k := None)) [])) = [] \<and>
                 snd (collect opts ks (m(k := None)) (acc @ [e])) h = (m(k := None)) h"
      by (rule collect_other [OF hks keyed_delete [OF Cons.prems(3)]])
    have gone: "(m(k := None)) h = None" using True by simp
    show ?thesis
      unfolding collect_taken [where m = m and k = k, OF mk Cons.prems(5)] step
      using other he gone by simp
  next
    case False
    then have hks: "h \<in> set ks" and dks: "distinct ks" using Cons.prems(1,2) by auto
    show ?thesis
    proof (cases "m k")
      case None
      show ?thesis
        unfolding collect_none [where m = m and k = k, OF None] by (rule Cons.IH [OF dks hks Cons.prems(3,4,5)])
    next
      case (Some ev)
      have hev: "H (Route ev) \<noteq> h" using keyed_hash [where m = m and k = k, OF Cons.prems(3) Some] False by simp
      have mh: "(m(k := None)) h = Some e" using False Cons.prems(4) by simp
      show ?thesis
      proof (cases "passes opts ev")
        case False
        show ?thesis
          unfolding collect_held [where m = m and k = k, OF Some False]
          by (rule Cons.IH [OF dks hks Cons.prems(3,4,5)])
      next
        case True
        have step: "fst (collect opts ks (m(k := None)) ([] @ [ev])) =
              ([] @ [ev]) @ fst (collect opts ks (m(k := None)) [])"
          by (rule collect_acc)
        have ih: "filter (\<lambda>x. H (Route x) = h) (fst (collect opts ks (m(k := None)) [])) = [e] \<and>
                  snd (collect opts ks (m(k := None)) (acc @ [ev])) h = None"
          by (rule Cons.IH [OF dks hks keyed_delete [OF Cons.prems(3)] mh Cons.prems(5)])
        show ?thesis
          unfolding collect_taken [where m = m and k = k, OF Some True] step
          using ih hev by simp
      qed
    qed
  qed
qed

text \<open>
  C1. The specification has an event whose type differs from the stored one replace the
  stored entry, so that \<^verbatim>\<open>Update\<close>, \<^verbatim>\<open>Update\<close>, \<^verbatim>\<open>Delete\<close> for one route within a tick
  window publish a single \<^verbatim>\<open>Delete\<close>; the comment in the source says the same. The
  source assigns the new event to the local variable only, and the map keeps the first
  event: on these three events, for every hash function, route and timestamps, the
  advert published at the next tick holds one event for the route, and it is the first
  \<^verbatim>\<open>Update\<close>.
\<close>

theorem update_update_delete_publishes_update:
  "advertiseEvents H (ex_opts AdvertiseAll)
     [TableEvent (Some \<lparr>Type = Update, Timestamp = t1, Route = r\<rparr>),
      TableEvent (Some \<lparr>Type = Update, Timestamp = t2, Route = r\<rparr>),
      TableEvent (Some \<lparr>Type = Delete, Timestamp = t3, Route = r\<rparr>),
      Tick [H r]] Map.empty =
   ([[\<lparr>Type = Update, Timestamp = t1, Route = r\<rparr>]], Map.empty)"
  by (simp add: on_event_def on_tick_def ex_opts_def Let_def)

theorem update_update_delete_publishes_update_witness:
  "advertiseEvents sample_Hash (ex_opts AdvertiseAll)
     [TableEvent (Some (ex_event Update 1 ''local'')),
      TableEvent (Some (ex_event Update 2 ''local'')),
      TableEvent (Some (ex_event Delete 3 ''local'')),
      Tick [sample_Hash (Route (ex_event Update 1 ''local''))]] Map.empty =
   ([[ex_event Update 1 ''local'']], Map.empty) \<and>
   Type (ex_event Update 1 ''local'') \<noteq> Delete"
  using update_update_delete_publishes_update
          [of sample_Hash 1 "ex_route ''10.0.0.1:80'' ''prod'' ''self'' ''local''" 2 3]
  by (simp add: ex_event_def)

text \<open>
  C2. When the advertise strategy admits the first event (it is not
  \<^verbatim>\<open>AdvertiseNone\<close>, and under \<^verbatim>\<open>AdvertiseLocal\<close> the route's link is \<^verbatim>\<open>local\<close>) and the
  map holds no entry for its fingerprint when the window starts, then after that event
  and any number of further events of the same fingerprint and type the map holds
  exactly one entry for the fingerprint, the first event received, every other entry
  being as before; and the advert drained at the next tick, in whatever order the map is
  ranged over, contains exactly one event of that fingerprint, again the first one.
\<close>

theorem same_type_events_collapse:
  assumes "admitted opts e" and "keyed H m" and "m (H (Route e)) = None"
      and "\<forall>x\<in>set es. H (Route x) = H (Route e) \<and> Type x = Type e"
  shows "\<exists>m'. advertiseEvents H opts (map (\<lambda>x. TableEvent (Some x)) (e # es)) m = ([], m') \<and>
           m' (H (Route e)) = Some e \<and>
           (\<forall>k. k \<noteq> H (Route e) \<longrightarrow> m' k = m k) \<and>
           (range_order ks m' \<longrightarrow>
              (\<exists>evs final.
                 advertiseEvents H opts (map (\<lambda>x. TableEvent (Some x)) (e # es) @ [Tick ks]) m =
                   ([evs], final) \<and>
                 filter (\<lambda>x. H (Route x) = H (Route e)) evs = [e] \<and>
                 final (H (Route e)) = None))"
proof -
  let ?h = "H (Route e)"
  let ?m' = "foldl (\<lambda>m x. on_event H opts (Some x) m) m (e # es)"
  have run: "advertiseEvents H opts (map (\<lambda>x. TableEvent (Some x)) (e # es)) m = ([], ?m')"
    using advertiseEvents_events [of H opts "e # es" "[]" m] by simp
  have "?m' ?h = (case m ?h of Some ev \<Rightarrow> Some ev
                  | None \<Rightarrow> find (\<lambda>x. admitted opts x \<and> H (Route x) = ?h) (e # es))"
    by (rule foldl_first_wins)
  then have entry: "?m' ?h = Some e"
    using assms(1,3) by simp
  have others: "\<forall>k. k \<noteq> ?h \<longrightarrow> ?m' k = m k"
  proof (intro allI impI)
    fix k assume k: "k \<noteq> ?h"
    have "find (\<lambda>x. admitted opts x \<and> H (Route x) = k) (e # es) = None"
      using k assms(4) by (auto simp: find_None_iff)
    moreover have "?m' k = (case m k of Some ev \<Rightarrow> Some ev
                  | None \<Rightarrow> find (\<lambda>x. admitted opts x \<and> H (Route x) = k) (e # es))"
      by (rule foldl_first_wins)
    ultimately show "?m' k = m k"
      by (simp split: option.splits)
  qed
  have tick: "range_order ks ?m' \<longrightarrow>
              (\<exists>evs final.
                 advertiseEvents H opts (map (\<lambda>x. TableEvent (Some x)) (e # es) @ [Tick ks]) m =
                   ([evs], final) \<and>
                 filter (\<lambda>x. H (Route x) = ?h) evs = [e] \<and> final ?h = None)"
  proof
    assume ro: "range_order ks ?m'"
    then have d: "distinct ks" and hin: "?h \<in> set ks"
      using entry by (auto simp: range_order_def)
    have k': "keyed H ?m'" using assms(2) by (rule keyed_foldl)
    have p: "passes opts e" using assms(1) by (simp add: admitted_def passes_def)
    obtain evs final where c: "collect opts ks ?m' [] = (evs, final)"
      by (cases "collect opts ks ?m' []")
    have one: "filter (\<lambda>x. H (Route x) = ?h) evs = [e] \<and> final ?h = None"
      using collect_one [OF d hin k' entry p, of "[]"] c by simp
    then have ne: "evs \<noteq> []" by auto
    have nn: "opt_Advertise opts \<noteq> AdvertiseNone" using assms(1) by (simp add: admitted_def)
    have "advertiseEvents H opts (map (\<lambda>x. TableEvent (Some x)) (e # es) @ [Tick ks]) m =
            advertiseEvents H opts [Tick ks] ?m'"
      by (rule advertiseEvents_events)
    also have "\<dots> = ([evs], final)"
      using c ne nn by (simp add: on_tick_def)
    finally show "\<exists>evs final.
                 advertiseEvents H opts (map (\<lambda>x. TableEvent (Some x)) (e # es) @ [Tick ks]) m =
                   ([evs], final) \<and>
                 filter (\<lambda>x. H (Route x) = ?h) evs = [e] \<and> final ?h = None"
      using one by blast
  qed
  show ?thesis using run entry others tick by blast
qed

theorem same_type_events_collapse_witness:
  "admitted (ex_opts AdvertiseLocal) (ex_event Update 1 ''local'') \<and>
   keyed sample_Hash Map.empty \<and>
   list_all (\<lambda>x. sample_Hash (Route x) = sample_Hash (Route (ex_event Update 1 ''local'')) \<and>
                  Type x = Type (ex_event Update 1 ''local''))
     [ex_event Update 2 ''local'', ex_event Update 3 ''local''] \<and>
   (\<exists>evs final.
      advertiseEvents sample_Hash (ex_opts AdvertiseLocal)
        [TableEvent (Some (ex_event Update 1 ''local'')),
         TableEvent (Some (ex_event Update 2 ''local'')),
         TableEvent (Some (ex_event Update 3 ''local'')),
         Tick [sample_Hash (Route (ex_event Update 1 ''local''))]] Map.empty = ([evs], final) \<and>
      filter (\<lambda>x. sample_Hash (Route x) = sample_Hash (Route (ex_event Update 1 ''local''))) evs =
        [ex_event Update 1 ''local''] \<and>
      final (sample_Hash (Route (ex_event Update 1 ''local''))) = None)"
proof -
  let ?e = "ex_event Update 1 ''local''"
  let ?es = "[ex_event Update 2 ''local'', ex_event Update 3 ''local'']"
  let ?ks = "[sample_Hash (Route ?e)]"
  have adm: "admitted (ex_opts AdvertiseLocal) ?e"
    by (simp add: admitted_def ex_opts_def ex_event_def ex_route_def)
  have keyed: "keyed sample_Hash Map.empty" by (simp add: keyed_def)
  have absent: "Map.empty (sample_Hash (Route ?e)) = None" by simp
  have same: "list_all (\<lambda>x. sample_Hash (Route x) = sample_Hash (Route ?e) \<and> Type x = Type ?e) ?es"
    by (simp add: ex_event_def)
  then have same_ball: "\<forall>x\<in>set ?es. sample_Hash (Route x) = sample_Hash (Route ?e) \<and> Type x = Type ?e"
    by (simp add: list_all_iff)
  from same_type_events_collapse [OF adm keyed absent same_ball, of ?ks]
  obtain m' where
    m': "m' (sample_Hash (Route ?e)) = Some ?e"
        "\<forall>k. k \<noteq> sample_Hash (Route ?e) \<longrightarrow> m' k = Map.empty k" and
    tick: "range_order ?ks m' \<longrightarrow>
       (\<exists>evs final.
          advertiseEvents sample_Hash (ex_opts AdvertiseLocal)
            (map (\<lambda>x. TableEvent (Some x)) (?e # ?es) @ [Tick ?ks]) Map.empty = ([evs], final) \<and>
          filter (\<lambda>x. sample_Hash (Route x) = sample_Hash (Route ?e)) evs = [?e] \<and>
          final (sample_Hash (Route ?e)) = None)"
    by blast
  have "dom m' = {sample_Hash (Route ?e)}"
  proof
    show "dom m' \<subseteq> {sample_Hash (Route ?e)}"
    proof
      fix k assume "k \<in> dom m'"
      then have "m' k \<noteq> None" by auto
      then have "k = sample_Hash (Route ?e)" using m'(2) by (cases "k = sample_Hash (Route ?e)") auto
      then show "k \<in> {sample_Hash (Route ?e)}" by simp
    qed
    show "{sample_Hash (Route ?e)} \<subseteq> dom m'" using m'(1) by auto
  qed
  then have "range_order ?ks m'" by (simp add: range_order_def)
  with tick have "\<exists>evs final.
          advertiseEvents sample_Hash (ex_opts AdvertiseLocal)
            (map (\<lambda>x. TableEvent (Some x)) (?e # ?es) @ [Tick ?ks]) Map.empty = ([evs], final) \<and>
          filter (\<lambda>x. sample_Hash (Route x) = sample_Hash (Route ?e)) evs = [?e] \<and>
          final (sample_Hash (Route ?e)) = None"
    by blast
  then have "\<exists>evs final.
      advertiseEvents sample_Hash (ex_opts AdvertiseLocal)
        [TableEvent (Some ?e), TableEvent (Some (ex_event Update 2 ''local'')),
         TableEvent (Some (ex_event Update 3 ''local'')), Tick ?ks] Map.empty = ([evs], final) \<and>
      filter (\<lambda>x. sample_Hash (Route x) = sample_Hash (Route ?e)) evs = [?e] \<and>
      final (sample_Hash (Route ?e)) = None"
    by (simp only: list.map append.simps)
  then show ?thesis using adm keyed same by (intro conjI)
qed

text \<open>
  Without the condition on the strategy the statement fails (C2 as first stated): under
  \<^verbatim>\<open>AdvertiseLocal\<close> two \<^verbatim>\<open>Update\<close> events for a route whose link is \<^verbatim>\<open>network\<close>, and under
  \<^verbatim>\<open>AdvertiseNone\<close> an \<^verbatim>\<open>Update\<close> event for any route, leave the map empty, and the next
  tick publishes nothing.
\<close>

theorem events_outside_strategy_leave_no_entry:
  "advertiseEvents sample_Hash (ex_opts AdvertiseLocal)
     [TableEvent (Some (ex_event Update 1 ''network'')),
      TableEvent (Some (ex_event Update 2 ''network''))] Map.empty = ([], Map.empty) \<and>
   advertiseEvents sample_Hash (ex_opts AdvertiseLocal)
     [TableEvent (Some (ex_event Update 1 ''network'')),
      TableEvent (Some (ex_event Update 2 ''network'')), Tick []] Map.empty = ([], Map.empty) \<and>
   advertiseEvents sample_Hash (ex_opts AdvertiseNone)
     [TableEvent (Some (ex_event Update 1 ''local''))] Map.empty = ([], Map.empty) \<and>
   advertiseEvents sample_Hash (ex_opts AdvertiseNone)
     [TableEvent (Some (ex_event Update 1 ''local'')), Tick []] Map.empty = ([], Map.empty)"
  by (simp add: on_event_def on_tick_def ex_opts_def ex_event_def ex_route_def)

subsection \<open>Closing the router\<close>

lemma Close_noop:
  "exit_closed r \<or> \<not> running r \<Longrightarrow> Close r = Returns (None, r)"
  by (auto simp: Close_def)

lemma close_subscribers_closed:
  "close_subscribers subs cs = Returns cs' \<Longrightarrow> ch_closed (cs x) \<Longrightarrow> ch_closed (cs' x)"
proof (induction subs arbitrary: cs)
  case Nil
  then show ?case by simp
next
  case (Cons s subs)
  obtain sid sub where s: "s = (sid, sub)" by (cases s)
  show ?case
  proof (cases "ch_closed (cs sub)")
    case True
    then show ?thesis using Cons.prems s by simp
  next
    case False
    have "close_subscribers subs (cs(sub := (cs sub)\<lparr>ch_closed := True\<rparr>)) = Returns cs'"
      using Cons.prems(1) s False by simp
    moreover have "ch_closed ((cs(sub := (cs sub)\<lparr>ch_closed := True\<rparr>)) x)"
      using Cons.prems(2) by simp
    ultimately show ?thesis by (rule Cons.IH)
  qed
qed

lemma Close_result:
  assumes "Close r = Returns (err, r')"
  shows "err = None \<and> (exit_closed r' \<or> \<not> running r')"
proof (cases "exit_closed r \<or> \<not> running r")
  case True
  then show ?thesis using assms Close_noop [OF True] by auto
next
  case False
  then show ?thesis
    using assms
    by (auto simp: Close_def Let_def split: option.splits outcome.splits if_splits)
qed

lemma close_subscribers_returns:
  "distinct (map snd subs) \<Longrightarrow> list_all (\<lambda>(sid, sub). \<not> ch_closed (cs sub)) subs \<Longrightarrow>
   \<exists>cs'. close_subscribers subs cs = Returns cs' \<and> (\<forall>c. c \<notin> snd ` set subs \<longrightarrow> cs' c = cs c)"
proof (induction subs arbitrary: cs)
  case Nil
  show ?case by simp
next
  case (Cons s subs)
  obtain sid sub where s: "s = (sid, sub)" by (cases s)
  have open_sub: "\<not> ch_closed (cs sub)" using Cons.prems(2) s by simp
  have d: "distinct (map snd subs)" and notin: "sub \<notin> snd ` set subs"
    using Cons.prems(1) s by auto
  let ?cs = "cs(sub := (cs sub)\<lparr>ch_closed := True\<rparr>)"
  have "list_all (\<lambda>(sid, sub). \<not> ch_closed (?cs sub)) subs"
    using Cons.prems(2) notin s by (force simp: list_all_iff)
  from Cons.IH [OF d this] obtain cs' where
    cs': "close_subscribers subs ?cs = Returns cs'" "\<forall>c. c \<notin> snd ` set subs \<longrightarrow> cs' c = ?cs c"
    by blast
  have "close_subscribers (s # subs) cs = Returns cs'"
    using s open_sub cs'(1) by simp
  moreover have "\<forall>c. c \<notin> snd ` set (s # subs) \<longrightarrow> cs' c = cs c"
    using cs'(2) s by auto
  ultimately show ?case by blast
qed

lemma Close_returns:
  assumes "rtr_ok r"
  shows "\<exists>r'. Close r = Returns (None, r')"
proof (cases "exit_closed r \<or> \<not> running r")
  case True
  then show ?thesis using Close_noop [OF True] by blast
next
  case False
  then have run: "running r" and nc: "\<not> exit_closed r" by auto
  from assms run obtain x where x: "exit_chan r = Some x"
    by (auto simp: rtr_ok_def)
  let ?r0 = "r\<lparr>chans := (chans r)(x := (chans r x)\<lparr>ch_closed := True\<rparr>)\<rparr>"
  have ev_open: "\<And>c. eventChan r = Some c \<Longrightarrow> \<not> ch_closed (chans r c) \<and> c \<noteq> x"
    using assms x by (auto simp: rtr_ok_def)
  obtain r1 where r1: "drain ?r0 = Returns r1" "subscribers r1 = subscribers r"
    "eventChan r1 = eventChan r" "\<And>c. ch_closed (chans r1 c) = ch_closed (chans ?r0 c)"
    using ev_open by (cases "eventChan r") (auto simp: drain_def)
  have subs_open: "list_all (\<lambda>(sid, sub). \<not> ch_closed (chans r1 sub)) (subscribers r1)"
    using assms x r1(2,4) by (auto simp: rtr_ok_def list_all_iff)
  have d: "distinct (map snd (subscribers r1))" using assms r1(2) by (simp add: rtr_ok_def)
  from close_subscribers_returns [OF d subs_open] obtain cs where
    cs: "close_subscribers (subscribers r1) (chans r1) = Returns cs"
        "\<forall>c. c \<notin> snd ` set (subscribers r1) \<longrightarrow> cs c = chans r1 c"
    by blast
  have ev_not_sub: "\<And>c. eventChan r = Some c \<Longrightarrow> c \<notin> snd ` set (subscribers r1)"
    using assms r1(2) by (auto simp: rtr_ok_def list_all_iff)
  have ev_still_open: "\<And>c. eventChan r = Some c \<Longrightarrow> \<not> ch_closed (cs c)"
    using cs(2) ev_not_sub ev_open r1(4) by simp
  show ?thesis
    using run nc x r1(1,3) cs(1) ev_still_open
    by (cases "eventChan r") (auto simp: Close_def Let_def)
qed

text \<open>
  C8. \<^verbatim>\<open>Close\<close> is idempotent: whenever it returns, it returns \<^verbatim>\<open>nil\<close>, and a further
  call on the router it leaves behind returns \<^verbatim>\<open>nil\<close> with the router unchanged; a call on
  a router whose exit channel is closed or whose running flag is false does no teardown
  and changes nothing. From every state that \<^verbatim>\<open>start\<close> and \<^verbatim>\<open>Advertise\<close> produce,
  \<^verbatim>\<open>Close\<close> does return.
\<close>

theorem Close_idempotent:
  "(Close r = Returns (err, r') \<longrightarrow> err = None \<and> Close r' = Returns (None, r')) \<and>
   (exit_closed r \<or> \<not> running r \<longrightarrow> Close r = Returns (None, r)) \<and>
   (rtr_ok r \<longrightarrow> (\<exists>r''. Close r = Returns (None, r'')))"
  using Close_result [of r err r'] Close_noop [of r'] Close_noop [of r] Close_returns [of r]
  by blast

theorem Close_idempotent_witness:
  "rtr_ok ex_rtr \<and>
   (\<exists>r'. Close ex_rtr = Returns (None, r') \<and> Close r' = Returns (None, r') \<and>
         \<not> running r' \<and> exit_closed r' \<and> subscribers r' = [] \<and> eventChan r' = None \<and>
         list_all (\<lambda>c. ch_closed (chans r' c)) [1, 2, 3, 4])"
proof -
  have ok: "rtr_ok ex_rtr"
    by (simp add: rtr_ok_def ex_rtr_def exit_closed_def)
  from Close_idempotent [of ex_rtr] ok
  obtain r' where first: "Close ex_rtr = Returns (None, r')" by blast
  from Close_idempotent [of ex_rtr None r'] first
  have second: "Close r' = Returns (None, r')" by blast
  have props: "\<not> running r' \<and> exit_closed r' \<and> subscribers r' = [] \<and> eventChan r' = None \<and>
         list_all (\<lambda>c. ch_closed (chans r' c)) [1, 2, 3, 4]"
    using first
    by (auto simp: Close_def drain_def exit_closed_def ex_rtr_def Let_def)
  show ?thesis using ok first second props by blast
qed

end
